theory Spec2Isabelle
  imports Complex_Main "HOL-Library.Word" "HOL-Library.AList"
begin

section \<open>The PZEM to OPC UA bridge (pzem_to_opcua_min.py)\<close>

text \<open>
  A shallow embedding of \<^verbatim>\<open>src/RPI-opcua-client/pzem_to_opcua_min.py\<close>.
  Python's \<^verbatim>\<open>bytes\<close> are lists of 8-bit words, its \<^verbatim>\<open>float\<close>s are
  idealised as real numbers (rounding of IEEE doubles is not modelled; so dividing by
  \<^verbatim>\<open>10.0\<close> and scaling by one tenth are the same operation here), every exception
  the code can meet is a value of type \<open>error\<close>, and the effects of the
  program (serial traffic, OPC UA calls, sleeps, log lines) are recorded as events.
\<close>

subsection \<open>Values\<close>

type_synonym byte = "8 word"

text \<open>An exception with its message (\<^verbatim>\<open>str(e)\<close>).\<close>

datatype error = Error string

text \<open>
  \<^verbatim>\<open>@dataclass class PzemReading\<close>: the field \<^verbatim>\<open>power\<close> is named
  \<open>power_w\<close> here.
\<close>

record PzemReading =
  voltage :: real
  current :: real
  power_w :: real
  energy :: real
  status :: string

text \<open>\<^verbatim>\<open>PzemReading(status=s)\<close>: the other fields take their defaults, 0.0.\<close>

definition PzemReading_status :: "string \<Rightarrow> PzemReading" where
  "PzemReading_status s =
     \<lparr>voltage = 0, current = 0, power_w = 0, energy = 0, status = s\<rparr>"

subsection \<open>The frame decoder\<close>

text \<open>\<^verbatim>\<open>buf[i:j]\<close> for constant \<open>0 \<le> i \<le> j\<close>: a slice never raises, it is cut short.\<close>

definition py_slice :: "nat \<Rightarrow> nat \<Rightarrow> 'a list \<Rightarrow> 'a list" where
  "py_slice i j xs = take (j - i) (drop i xs)"

text \<open>The unsigned big-endian value of a byte string.\<close>

definition be_uint :: "byte list \<Rightarrow> nat" where
  "be_uint bs = foldl (\<lambda>acc b. 256 * acc + unat b) 0 bs"

text \<open>
  \<^verbatim>\<open>struct.unpack(">H", bs)[0]\<close> (\<open>n = 2\<close>) and \<^verbatim>\<open>struct.unpack(">I", bs)[0]\<close>
  (\<open>n = 4\<close>): \<^verbatim>\<open>struct.error\<close> unless the buffer has exactly \<open>n\<close> bytes.
\<close>

definition struct_unpack :: "nat \<Rightarrow> byte list \<Rightarrow> error + nat" where
  "struct_unpack n bs =
     (if length bs = n then Inr (be_uint bs)
      else Inl (Error ''unpack requires a buffer of the format size''))"

text \<open>The body of the \<^verbatim>\<open>try\<close> block of \<^verbatim>\<open>_decode_response\<close>, statement by statement.\<close>

definition decode_try :: "byte list \<Rightarrow> error + PzemReading" where
  "decode_try buf =
     (case struct_unpack 2 (py_slice 3 5 buf) of
        Inl e \<Rightarrow> Inl e
      | Inr v \<Rightarrow>
     (case struct_unpack 4 (0 # py_slice 5 8 buf) of
        Inl e \<Rightarrow> Inl e
      | Inr c \<Rightarrow>
     (case struct_unpack 4 (0 # py_slice 9 12 buf) of
        Inl e \<Rightarrow> Inl e
      | Inr p \<Rightarrow>
     (case struct_unpack 4 (0 # py_slice 13 16 buf) of
        Inl e \<Rightarrow> Inl e
      | Inr w \<Rightarrow>
          Inr \<lparr>voltage = real v / 10, current = real c / 1000,
               power_w = real p / 10, energy = real w, status = ''OK''\<rparr>))))"

text \<open>
  \<^verbatim>\<open>PzemNative._decode_response\<close>: \<open>None\<close> for a short buffer, and \<open>None\<close>
  when the \<^verbatim>\<open>try\<close> block raises (\<^verbatim>\<open>except Exception: return None\<close>).
\<close>

definition decode_response :: "byte list \<Rightarrow> PzemReading option" where
  "decode_response buf =
     (if length buf < 25 then None
      else (case decode_try buf of Inl e \<Rightarrow> None | Inr r \<Rightarrow> Some r))"

text \<open>The 25-byte fixture of the specification: 2300 in the voltage field, 150 in the current field.\<close>

definition fixture :: "byte list" where
  "fixture = [0x01, 0x04, 0x14, 0x08, 0xFC, 0x00, 0x00, 0x96, 0x00,
              0x00, 0x01, 0x59, 0x00, 0x00, 0x00, 0x2A, 0x00, 0x00,
              0x00, 0x00, 0x00, 0x00, 0x00, 0x00, 0x00]"

subsection \<open>The sensor\<close>

text \<open>\<^verbatim>\<open>str(e)\<close> of an exception.\<close>

fun message :: "error \<Rightarrow> string" where
  "message (Error m) = m"

text \<open>\<^verbatim>\<open>int(x)\<close> of a float: truncation towards zero.\<close>

definition py_int :: "real \<Rightarrow> int" where
  "py_int x = (if 0 \<le> x then \<lfloor>x\<rfloor> else \<lceil>x\<rceil>)"

text \<open>\<^verbatim>\<open>class PzemNative\<close>; the field \<^verbatim>\<open>_last_energy\<close> is \<open>last_energy\<close>.\<close>

record PzemNative =
  device :: string
  baudrate :: int
  timeout :: real
  read_delay :: real
  simulate :: bool
  last_energy :: real

text \<open>\<^verbatim>\<open>PzemNative.__init__\<close>.\<close>

definition PzemNative_init :: "string \<Rightarrow> int \<Rightarrow> real \<Rightarrow> real \<Rightarrow> bool \<Rightarrow> PzemNative" where
  "PzemNative_init dev baud tmo delay sim =
     \<lparr>device = dev, baudrate = baud, timeout = tmo, read_delay = delay,
      simulate = sim, last_energy = 0\<rparr>"

text \<open>
  What the serial port does during one call of \<^verbatim>\<open>read\<close>: whether
  \<^verbatim>\<open>serial.Serial(...)\<close> raises, whether \<^verbatim>\<open>ser.write(req)\<close> raises, what
  \<^verbatim>\<open>ser.read(25)\<close> finds (an exception, or the bytes the device has sent, of which
  it returns at most 25), and whether closing the port at the end of the \<^verbatim>\<open>with\<close>
  block raises.
\<close>

record serial_port =
  open_result :: "error option"
  write_result :: "error option"
  read_result :: "error + byte list"
  close_result :: "error option"

text \<open>The world as one call of \<^verbatim>\<open>read\<close> sees it: \<^verbatim>\<open>time.time()\<close> and the port.\<close>

record read_env =
  now :: real
  port :: serial_port

text \<open>The \<^verbatim>\<open>if self.simulate:\<close> branch of \<^verbatim>\<open>read\<close>.\<close>

definition read_simulate :: "PzemNative \<Rightarrow> real \<Rightarrow> PzemReading \<times> PzemNative" where
  "read_simulate self t =
     (let v = 229.0 + 0.5 * (if py_int t mod 2 = 0 then 1 else - 1);
          c = 0.150 + 0.010 * (if py_int (t / 3) mod 2 = 0 then 1 else - 1);
          p = v * c;
          self' = self\<lparr>last_energy := last_energy self + p * (5.0 / 3600.0)\<rparr>
      in (\<lparr>voltage = v, current = c, power_w = p, energy = last_energy self',
           status = ''SIM''\<rparr>, self'))"

text \<open>
  The body of the \<^verbatim>\<open>with\<close> block: write the request, sleep (a negative delay makes
  \<^verbatim>\<open>time.sleep\<close> raise), read, decode. The result is what the body raises or
  returns, with the sensor object as the body left it.
\<close>

definition serial_body :: "PzemNative \<Rightarrow> serial_port \<Rightarrow> (error + PzemReading) \<times> PzemNative" where
  "serial_body self ser =
     (case write_result ser of
        Some e \<Rightarrow> (Inl e, self)
      | None \<Rightarrow>
          if read_delay self < 0 then (Inl (Error ''sleep length must be non-negative''), self)
          else (case read_result ser of
                  Inl e \<Rightarrow> (Inl e, self)
                | Inr sent \<Rightarrow>
                    (case decode_response (take 25 sent) of
                       Some reading \<Rightarrow> (Inr reading, self\<lparr>last_energy := energy reading\<rparr>)
                     | None \<Rightarrow> (Inr (PzemReading_status ''No response/Decode fail''), self))))"

text \<open>
  The \<^verbatim>\<open>try\<close> block: opening the port, the body, and closing the port on the way
  out (an exception of the close replaces the outcome of the body).
\<close>

definition serial_try :: "PzemNative \<Rightarrow> serial_port \<Rightarrow> (error + PzemReading) \<times> PzemNative" where
  "serial_try self ser =
     (case open_result ser of
        Some e \<Rightarrow> (Inl e, self)
      | None \<Rightarrow>
          (case serial_body self ser of
             (out, self') \<Rightarrow>
               (case close_result ser of
                  Some e \<Rightarrow> (Inl e, self')
                | None \<Rightarrow> (out, self'))))"

text \<open>\<^verbatim>\<open>PzemNative.read\<close>, with \<^verbatim>\<open>except Exception as e\<close> turning a raise into a reading.\<close>

definition read :: "PzemNative \<Rightarrow> read_env \<Rightarrow> PzemReading \<times> PzemNative" where
  "read self env =
     (if simulate self then read_simulate self (now env)
      else (case serial_try self (port env) of
              (Inr reading, self') \<Rightarrow> (reading, self')
            | (Inl e, self') \<Rightarrow> (PzemReading_status (''Serial error: '' @ message e), self')))"

text \<open>Consecutive calls of \<^verbatim>\<open>read\<close> on one sensor object, one per element of the list.\<close>

fun reads :: "PzemNative \<Rightarrow> read_env list \<Rightarrow> PzemReading list \<times> PzemNative" where
  "reads self [] = ([], self)"
| "reads self (env # envs) =
     (case read self env of
        (r, self') \<Rightarrow> (case reads self' envs of (rs, self'') \<Rightarrow> (r # rs, self'')))"

text \<open>Sample objects: a port on which nothing answers, a hardware sensor, a simulated one.\<close>

definition quiet_port :: serial_port where
  "quiet_port =
     \<lparr>open_result = None, write_result = None, read_result = Inr [], close_result = None\<rparr>"

definition hw_sensor :: PzemNative where
  "hw_sensor = PzemNative_init ''/dev/ttyAMA0'' 9600 2.0 0.2 False"

definition sim_sensor :: PzemNative where
  "sim_sensor = PzemNative_init ''/dev/ttyAMA0'' 9600 2.0 0.2 True"

subsection \<open>The OPC UA writer\<close>

text \<open>A node of the server's address space (an \<^verbatim>\<open>asyncua.Node\<close> handle).\<close>

type_synonym node = nat

text \<open>
  The address space as a connected session shows it: the outcome of
  \<^verbatim>\<open>get_children()\<close>, of \<^verbatim>\<open>read_browse_name()\<close> (the \<^verbatim>\<open>Name\<close> of the qualified
  name) and of \<^verbatim>\<open>read_attributes([AccessLevel, UserAccessLevel])\<close> on a node, each of
  which may raise.
\<close>

record address_space =
  get_children :: "node \<Rightarrow> error + node list"
  read_browse_name :: "node \<Rightarrow> error + string"
  read_attributes :: "node \<Rightarrow> error + int \<times> int"

text \<open>
  \<^verbatim>\<open>class UmatiPrWriter\<close> (without its client). The dictionary \<^verbatim>\<open>nodes\<close> is an
  association list in insertion order, as a Python \<^verbatim>\<open>dict\<close> is: \<^verbatim>\<open>nodes[k] = v\<close>
  is \<open>AList.update\<close>, \<^verbatim>\<open>nodes.get(k)\<close> is \<open>map_of\<close>.
\<close>

record UmatiPrWriter =
  machine_root_id :: node
  channel_path :: "string list"
  variable_names :: "string list"
  verbose :: bool
  nodes :: "(string \<times> node) list"

text \<open>\<^verbatim>\<open>UmatiPrWriter.__init__\<close>: the node map starts empty.\<close>

definition UmatiPrWriter_init :: "node \<Rightarrow> string list \<Rightarrow> string list \<Rightarrow> bool \<Rightarrow> UmatiPrWriter" where
  "UmatiPrWriter_init rt path names verb =
     \<lparr>machine_root_id = rt, channel_path = path, variable_names = names,
      verbose = verb, nodes = []\<rparr>"

text \<open>The loop of \<^verbatim>\<open>_find_child_by_browse_name\<close> over the children: the first match.\<close>

fun find_by_name :: "address_space \<Rightarrow> node list \<Rightarrow> string \<Rightarrow> error + node option" where
  "find_by_name s [] browse_name = Inr None"
| "find_by_name s (n # refs) browse_name =
     (case read_browse_name s n of
        Inl e \<Rightarrow> Inl e
      | Inr qn \<Rightarrow> if qn = browse_name then Inr (Some n) else find_by_name s refs browse_name)"

text \<open>\<^verbatim>\<open>UmatiPrWriter._find_child_by_browse_name\<close>.\<close>

definition find_child_by_browse_name ::
  "address_space \<Rightarrow> node \<Rightarrow> string \<Rightarrow> error + node option" where
  "find_child_by_browse_name s parent browse_name =
     (case get_children s parent of
        Inl e \<Rightarrow> Inl e
      | Inr refs \<Rightarrow> find_by_name s refs browse_name)"

text \<open>
  How \<^verbatim>\<open>resolve_nodes\<close> ends: an exception leaves it; it logs the segment at which
  browsing failed and returns \<^verbatim>\<open>False\<close>; it logs the variable that was not found and
  returns \<^verbatim>\<open>False\<close>; or it returns \<^verbatim>\<open>True\<close>.
\<close>

datatype resolve_result =
    Raised error
  | BrowseFailed string
  | VariableNotFound string
  | Resolved

text \<open>The first loop of \<^verbatim>\<open>resolve_nodes\<close>: down the channel path from \<open>cur\<close>.\<close>

fun walk_path :: "address_space \<Rightarrow> node \<Rightarrow> string list \<Rightarrow> resolve_result + node" where
  "walk_path s cur [] = Inr cur"
| "walk_path s cur (segment # rest) =
     (case find_child_by_browse_name s cur segment of
        Inl e \<Rightarrow> Inl (Raised e)
      | Inr None \<Rightarrow> Inl (BrowseFailed segment)
      | Inr (Some nxt) \<Rightarrow> walk_path s nxt rest)"

text \<open>
  The second loop: each variable is looked up under the channel and stored at once
  (\<^verbatim>\<open>self.nodes[name] = node\<close>). The result is how the loop was left early, if it
  was, and the node map as the loop left it.
\<close>

fun pick_variables ::
  "address_space \<Rightarrow> node \<Rightarrow> string list \<Rightarrow> (string \<times> node) list
     \<Rightarrow> resolve_result option \<times> (string \<times> node) list" where
  "pick_variables s cur [] ns = (None, ns)"
| "pick_variables s cur (name # rest) ns =
     (case find_child_by_browse_name s cur name of
        Inl e \<Rightarrow> (Some (Raised e), ns)
      | Inr None \<Rightarrow> (Some (VariableNotFound name), ns)
      | Inr (Some n) \<Rightarrow> pick_variables s cur rest (AList.update name n ns))"

text \<open>The loop of the \<^verbatim>\<open>if self.verbose:\<close> block: it only reads, and may raise.\<close>

fun inspect_access :: "address_space \<Rightarrow> (string \<times> node) list \<Rightarrow> error option" where
  "inspect_access s [] = None"
| "inspect_access s ((name, n) # rest) =
     (case read_attributes s n of
        Inl e \<Rightarrow> Some e
      | Inr (al, ual) \<Rightarrow> inspect_access s rest)"

text \<open>\<^verbatim>\<open>UmatiPrWriter.resolve_nodes\<close>: how it ends, and the writer as it leaves it.\<close>

definition resolve_nodes :: "address_space \<Rightarrow> UmatiPrWriter \<Rightarrow> resolve_result \<times> UmatiPrWriter" where
  "resolve_nodes s self =
     (case walk_path s (machine_root_id self) (channel_path self) of
        Inl r \<Rightarrow> (r, self)
      | Inr cur \<Rightarrow>
          (case pick_variables s cur (variable_names self) (nodes self) of
             (Some r, ns) \<Rightarrow> (r, self\<lparr>nodes := ns\<rparr>)
           | (None, ns) \<Rightarrow>
               if verbose self
               then (case inspect_access s ns of
                       Some e \<Rightarrow> (Raised e, self\<lparr>nodes := ns\<rparr>)
                     | None \<Rightarrow> (Resolved, self\<lparr>nodes := ns\<rparr>))
               else (Resolved, self\<lparr>nodes := ns\<rparr>)))"

text \<open>
  What the program does to the outside, in order: OPC UA calls, sleeps, sensor reads,
  and the warnings and errors it logs (\<^verbatim>\<open>info\<close> lines are left out).
\<close>

datatype event =
    EvConnect
  | EvDisconnect
  | EvSleep real
  | EvWrite node real
  | EvRead PzemReading
  | ErrNotResolved string
  | ErrWriteException error
  | ErrBrowseFailed string
  | ErrVariableNotFound string
  | WarnAttempt int int string
  | WarnStatus string
  | WarnWriteNotOk
  | DebugValues real real real real

text \<open>\<^verbatim>\<open>d.get(k, dflt)\<close>.\<close>

definition dict_get :: "('k \<rightharpoonup> 'v) \<Rightarrow> 'k \<Rightarrow> 'v \<Rightarrow> 'v" where
  "dict_get d k dflt = (case d k of Some x \<Rightarrow> x | None \<Rightarrow> dflt)"

text \<open>
  The loop of \<^verbatim>\<open>write_values\<close> over the rest of the variable names, inside the
  \<^verbatim>\<open>try\<close>. \<open>wv n v\<close> is \<^verbatim>\<open>n.write_value(ua.Variant(v, Double))\<close> on a server in
  some state: it may raise, and leaves a new state. The result is the exception that
  ended the loop or the final \<^verbatim>\<open>ok\<close>, then the events, then the server's state.
\<close>

fun write_loop ::
  "(node \<Rightarrow> real \<Rightarrow> 'srv \<Rightarrow> error option \<times> 'srv) \<Rightarrow> (string \<times> node) list \<Rightarrow> (string \<rightharpoonup> real)
     \<Rightarrow> string list \<Rightarrow> bool \<Rightarrow> 'srv \<Rightarrow> (error + bool) \<times> event list \<times> 'srv" where
  "write_loop wv ns vals [] ok srv = (Inr ok, [], srv)"
| "write_loop wv ns vals (name # rest) ok srv =
     (case map_of ns name of
        None \<Rightarrow>
          (case write_loop wv ns vals rest False srv of
             (r, evs, srv') \<Rightarrow> (r, ErrNotResolved name # evs, srv'))
      | Some n \<Rightarrow>
          (let v = dict_get vals name 0.0 in
           case wv n v srv of
             (Some e, srv') \<Rightarrow> (Inl e, [EvWrite n v], srv')
           | (None, srv') \<Rightarrow>
               (case write_loop wv ns vals rest ok srv' of
                  (r, evs, srv'') \<Rightarrow> (r, EvWrite n v # evs, srv''))))"

text \<open>\<^verbatim>\<open>UmatiPrWriter.write_values\<close>: \<^verbatim>\<open>except Exception\<close> logs and returns \<^verbatim>\<open>False\<close>.\<close>

definition write_values ::
  "(node \<Rightarrow> real \<Rightarrow> 'srv \<Rightarrow> error option \<times> 'srv) \<Rightarrow> UmatiPrWriter \<Rightarrow> (string \<rightharpoonup> real)
     \<Rightarrow> 'srv \<Rightarrow> bool \<times> event list \<times> 'srv" where
  "write_values wv self vals srv =
     (case write_loop wv (nodes self) vals (variable_names self) True srv of
        (Inr ok, evs, srv') \<Rightarrow> (ok, evs, srv')
      | (Inl e, evs, srv') \<Rightarrow> (False, evs @ [ErrWriteException e], srv'))"

text \<open>
  A sample address space: under the root 0 the object Main (1), and under it the variables
  AcVoltagePe (2) and AcCurrentPe (3). Three writers over it: one whose path and variables
  exist, one whose path does not, one whose second variable does not.
\<close>

definition demo_space :: address_space where
  "demo_space =
     \<lparr>get_children = (\<lambda>n. Inr (if n = 0 then [1] else if n = 1 then [2, 3] else [])),
      read_browse_name = (\<lambda>n. Inr (if n = 1 then ''Main'' else if n = 2 then ''AcVoltagePe''
                                    else if n = 3 then ''AcCurrentPe'' else ''Objects'')),
      read_attributes = (\<lambda>n. Inr (3, 3))\<rparr>"

definition writer_ok :: UmatiPrWriter where
  "writer_ok = UmatiPrWriter_init 0 [''Main''] [''AcVoltagePe'', ''AcCurrentPe''] False"

definition writer_bad_path :: UmatiPrWriter where
  "writer_bad_path = UmatiPrWriter_init 0 [''Monitoring''] [''AcVoltagePe'', ''AcCurrentPe''] False"

definition writer_bad_var :: UmatiPrWriter where
  "writer_bad_var = UmatiPrWriter_init 0 [''Main''] [''AcVoltagePe'', ''AcActivePowerPe''] False"

text \<open>The event that the loop body leaves for one name when its write does not raise.\<close>

definition item_event :: "(string \<times> node) list \<Rightarrow> (string \<rightharpoonup> real) \<Rightarrow> string \<Rightarrow> event" where
  "item_event ns vals name =
     (case map_of ns name of
        None \<Rightarrow> ErrNotResolved name
      | Some n \<Rightarrow> EvWrite n (dict_get vals name 0.0))"

text \<open>
  The writes that a batch over the given names asks of the server, in order: one for each
  resolved name, with the value from the mapping or 0.0.
\<close>

fun writes_of :: "(string \<times> node) list \<Rightarrow> (string \<rightharpoonup> real) \<Rightarrow> string list \<Rightarrow> (node \<times> real) list" where
  "writes_of ns vals [] = []"
| "writes_of ns vals (name # rest) =
     (case map_of ns name of
        None \<Rightarrow> writes_of ns vals rest
      | Some n \<Rightarrow> (n, dict_get vals name 0.0) # writes_of ns vals rest)"

text \<open>Whether the server accepts a sequence of writes, one after the other, without raising.\<close>

fun writes_succeed :: "(node \<Rightarrow> real \<Rightarrow> 'srv \<Rightarrow> error option \<times> 'srv) \<Rightarrow> (node \<times> real) list \<Rightarrow> 'srv \<Rightarrow> bool" where
  "writes_succeed wv [] srv = True"
| "writes_succeed wv ((n, v) # ws) srv =
     (case wv n v srv of
        (None, srv') \<Rightarrow> writes_succeed wv ws srv'
      | (Some e, srv') \<Rightarrow> False)"

text \<open>The state in which a sequence of writes leaves the server.\<close>

fun srv_after :: "(node \<Rightarrow> real \<Rightarrow> 'srv \<Rightarrow> error option \<times> 'srv) \<Rightarrow> (node \<times> real) list \<Rightarrow> 'srv \<Rightarrow> 'srv" where
  "srv_after wv [] srv = srv"
| "srv_after wv ((n, v) # ws) srv = srv_after wv ws (snd (wv n v srv))"

text \<open>
  A sample server: writes to the nodes listed in \<open>bad\<close> raise, the others are
  appended to the list of accepted writes. A writer with both variables resolved, one with
  only the second resolved, and two payloads.
\<close>

definition demo_wv :: "node list \<Rightarrow> node \<Rightarrow> real \<Rightarrow> (node \<times> real) list \<Rightarrow> error option \<times> (node \<times> real) list" where
  "demo_wv bad n v st =
     (if n \<in> set bad then (Some (Error ''BadUserAccessDenied''), st) else (None, st @ [(n, v)]))"

definition writer_resolved :: UmatiPrWriter where
  "writer_resolved = writer_ok\<lparr>nodes := [(''AcVoltagePe'', 2), (''AcCurrentPe'', 3)]\<rparr>"

definition payload_vi :: "string \<rightharpoonup> real" where
  "payload_vi = [''AcVoltagePe'' \<mapsto> 230.0, ''AcCurrentPe'' \<mapsto> 0.150]"

definition payload_v :: "string \<rightharpoonup> real" where
  "payload_v = [''AcVoltagePe'' \<mapsto> 230.0]"

definition writer_partial :: UmatiPrWriter where
  "writer_partial = writer_ok\<lparr>nodes := [(''AcCurrentPe'', 3)]\<rparr>"

subsection \<open>Orchestration\<close>

text \<open>
  What \<^verbatim>\<open>main\<close> takes from the configuration file, after the conversions it applies
  (\<^verbatim>\<open>bool\<close>, \<^verbatim>\<open>int\<close>, \<^verbatim>\<open>float\<close>). \<open>cfg_machine_root\<close> is the outcome of
  \<^verbatim>\<open>ua.NodeId.from_string(machine_root)\<close>, which raises on a malformed identifier.
\<close>

record config =
  cfg_verbose :: bool
  cfg_log_values :: bool
  cfg_values_every_n :: int
  cfg_device :: string
  cfg_baudrate :: int
  cfg_timeout :: real
  cfg_read_delay :: real
  cfg_simulate :: bool
  v_scale :: real
  i_scale :: real
  p_scale :: real
  e_scale :: real
  cfg_machine_root :: "error + node"
  cfg_channel_path :: "string list"
  cfg_var_names :: "string list"
  retries :: int
  retry_delay :: real
  sample :: real

text \<open>
  The \<^verbatim>\<open>try\<close> block of one attempt, given what \<^verbatim>\<open>await client.connect()\<close> does
  (it raises, or the session shows an address space): connect, build a fresh writer,
  resolve; \<^verbatim>\<open>resolve_nodes\<close> returning false raises \<^verbatim>\<open>RuntimeError\<close>. The result
  is the events and either the exception that reaches the handler or the writer.
\<close>

definition attempt_try :: "config \<Rightarrow> error + address_space \<Rightarrow> event list \<times> (error + UmatiPrWriter)" where
  "attempt_try cfg conn =
     (case conn of
        Inl e \<Rightarrow> ([EvConnect], Inl e)
      | Inr s \<Rightarrow>
          (case cfg_machine_root cfg of
             Inl e \<Rightarrow> ([EvConnect], Inl e)
           | Inr rt \<Rightarrow>
               (case resolve_nodes s
                       (UmatiPrWriter_init rt (cfg_channel_path cfg) (cfg_var_names cfg)
                          (cfg_verbose cfg)) of
                  (Resolved, w) \<Rightarrow> ([EvConnect], Inr w)
                | (Raised e, w) \<Rightarrow> ([EvConnect], Inl e)
                | (BrowseFailed seg, w) \<Rightarrow>
                    ([EvConnect, ErrBrowseFailed seg], Inl (Error ''Node resolution failed.''))
                | (VariableNotFound name, w) \<Rightarrow>
                    ([EvConnect, ErrVariableNotFound name],
                     Inl (Error ''Node resolution failed.'')))))"

text \<open>
  How the retry loop is left: by \<^verbatim>\<open>return\<close> after the last attempt, or towards the
  sampling loop with the value of the variable \<^verbatim>\<open>writer\<close>.
\<close>

datatype phase_result = GaveUp | Proceed "UmatiPrWriter option"

text \<open>
  \<^verbatim>\<open>for attempt in range(1, retries + 1)\<close> over the attempts that remain;
  \<open>connect k\<close> is what \<^verbatim>\<open>await client.connect()\<close> does at attempt \<open>k\<close>. The handler
  logs a warning, disconnects (an exception of the disconnect is swallowed), then sleeps
  if \<^verbatim>\<open>attempt < retries\<close> and returns otherwise. When the range is exhausted
  without \<^verbatim>\<open>break\<close>, \<^verbatim>\<open>writer\<close> is \<^verbatim>\<open>None\<close>.
\<close>

fun connect_loop ::
  "config \<Rightarrow> (int \<Rightarrow> error + address_space) \<Rightarrow> int list \<Rightarrow> event list \<times> phase_result" where
  "connect_loop cfg connect [] = ([], Proceed None)"
| "connect_loop cfg connect (attempt # rest) =
     (case attempt_try cfg (connect attempt) of
        (evs, Inr w) \<Rightarrow> (evs, Proceed (Some w))
      | (evs, Inl e) \<Rightarrow>
          (let evs' = evs @ [WarnAttempt attempt (retries cfg) (message e), EvDisconnect] in
           if attempt < retries cfg
           then (case connect_loop cfg connect rest of
                   (evs2, res) \<Rightarrow> (evs' @ EvSleep (retry_delay cfg) # evs2, res))
           else (evs', GaveUp)))"

text \<open>
  The \<^verbatim>\<open>while True\<close> loop, one cycle per element of the list: the list holds what the
  sensor sees in each cycle that runs before the task is cancelled (during the sleep of
  the last one). \<open>tick\<close> counts the cycles.
\<close>

fun sampling ::
  "config \<Rightarrow> (node \<Rightarrow> real \<Rightarrow> 'srv \<Rightarrow> error option \<times> 'srv) \<Rightarrow> UmatiPrWriter option
     \<Rightarrow> PzemNative \<Rightarrow> 'srv \<Rightarrow> int \<Rightarrow> read_env list \<Rightarrow> event list" where
  "sampling cfg wv writer pzem srv tick [] = []"
| "sampling cfg wv writer pzem srv tick (env # rest) =
     (case read pzem env of
        (r, pzem') \<Rightarrow>
          (let v = voltage r * v_scale cfg;
               i = current r * i_scale cfg;
               p = power_w r * p_scale cfg;
               e = energy r * e_scale cfg;
               payload = [''AcVoltagePe'' \<mapsto> v, ''AcCurrentPe'' \<mapsto> i,
                          ''AcActivePowerPe'' \<mapsto> p, ''AcActiveEnergyTotalImportHp'' \<mapsto> e];
               written =
                 (case writer of
                    None \<Rightarrow> ([], srv)
                  | Some w \<Rightarrow>
                      (case write_values wv w payload srv of
                         (ok, evs, srv') \<Rightarrow>
                           (evs @ (if ok then [] else [WarnWriteNotOk]), srv')));
               tick' = tick + 1
           in EvRead r
              # (if status r \<noteq> ''OK'' \<and> status r \<noteq> ''SIM'' then [WarnStatus (status r)] else [])
              @ fst written
              @ (if cfg_log_values cfg \<and> tick' mod max 1 (cfg_values_every_n cfg) = 0
                 then [DebugValues v i p e] else [])
              @ EvSleep (sample cfg)
              # sampling cfg wv writer pzem' (snd written) tick' rest))"

text \<open>How \<^verbatim>\<open>main()\<close> ends: it returns, or an exception leaves it.\<close>

datatype main_outcome = Returned | Propagated error

text \<open>
  \<^verbatim>\<open>main\<close>. \<open>loaded\<close> is the outcome of loading and converting the configuration
  (\<^verbatim>\<open>load_config\<close> raises when the file is missing). After the retry loop either
  \<^verbatim>\<open>main\<close> has returned, or the sampling loop runs until the task is cancelled, and
  the \<^verbatim>\<open>finally\<close> block disconnects.
\<close>

definition main ::
  "error + config \<Rightarrow> (int \<Rightarrow> error + address_space)
     \<Rightarrow> (node \<Rightarrow> real \<Rightarrow> 'srv \<Rightarrow> error option \<times> 'srv) \<Rightarrow> 'srv \<Rightarrow> read_env list
     \<Rightarrow> event list \<times> main_outcome" where
  "main loaded connect wv srv cycles =
     (case loaded of
        Inl e \<Rightarrow> ([], Propagated e)
      | Inr cfg \<Rightarrow>
          (let pzem = PzemNative_init (cfg_device cfg) (cfg_baudrate cfg) (cfg_timeout cfg)
                        (cfg_read_delay cfg) (cfg_simulate cfg)
           in case connect_loop cfg connect [1..retries cfg] of
                (evs, GaveUp) \<Rightarrow> (evs, Returned)
              | (evs, Proceed writer) \<Rightarrow>
                  (evs @ sampling cfg wv writer pzem srv 0 cycles @ [EvDisconnect], Returned)))"

text \<open>
  The exit status of the script: \<^verbatim>\<open>asyncio.run(main())\<close> under
  \<^verbatim>\<open>if __name__ == "__main__"\<close>. The script calls no \<^verbatim>\<open>sys.exit\<close>: the status is
  0 when \<^verbatim>\<open>main\<close> returns and 1 when an exception leaves it.
\<close>

definition exit_status :: "main_outcome \<Rightarrow> int" where
  "exit_status out = (case out of Returned \<Rightarrow> 0 | Propagated e \<Rightarrow> 1)"

text \<open>The events that count attempts and the waits between them.\<close>

fun attempt_or_sleep :: "event \<Rightarrow> bool" where
  "attempt_or_sleep EvConnect = True"
| "attempt_or_sleep (EvSleep d) = True"
| "attempt_or_sleep ev = False"

text \<open>
  A sample configuration (simulated sensor, three attempts) and a server that refuses
  every connection.
\<close>

definition demo_config :: config where
  "demo_config =
     \<lparr>cfg_verbose = False, cfg_log_values = False, cfg_values_every_n = 12,
      cfg_device = ''/dev/ttyAMA0'', cfg_baudrate = 9600, cfg_timeout = 2.0,
      cfg_read_delay = 0.2, cfg_simulate = True,
      v_scale = 1.0, i_scale = 1.0, p_scale = 1.0, e_scale = 1.0,
      cfg_machine_root = Inr 0, cfg_channel_path = [''Main''],
      cfg_var_names = [''AcVoltagePe'', ''AcCurrentPe''],
      retries = 3, retry_delay = 3.0, sample = 5.0\<rparr>"

definition refuse :: "int \<Rightarrow> error + address_space" where
  "refuse k = Inl (Error ''Connection refused'')"

text \<open>
  A server that accepts every connection and shows the sample address space, and a
  configuration with two attempts whose channel path does not exist there.
\<close>

definition accept :: "int \<Rightarrow> error + address_space" where
  "accept k = Inr demo_space"

definition demo_config_bad_path :: config where
  "demo_config_bad_path = demo_config\<lparr>cfg_channel_path := [''Monitoring''], retries := 2\<rparr>"

text \<open>The events that are calls of \<^verbatim>\<open>pzem.read()\<close>.\<close>

fun sensor_read :: "event \<Rightarrow> bool" where
  "sensor_read (EvRead r) = True"
| "sensor_read ev = False"

section \<open>Properties of the decoder\<close>

lemma be_uint_2: "be_uint [a, b] = 256 * unat a + unat b"
  by (simp add: be_uint_def)

lemma be_uint_4: "be_uint [0, a, b, c] = 65536 * unat a + 256 * unat b + unat c"
  by (simp add: be_uint_def)

lemma py_slice_nth:
  assumes "j \<le> length xs"
  shows "py_slice i j xs = map ((!) xs) [i..<j]"
proof (rule nth_equalityI)
  show "length (py_slice i j xs) = length (map ((!) xs) [i..<j])"
    using assms by (simp add: py_slice_def)
next
  fix k
  assume "k < length (py_slice i j xs)"
  then show "py_slice i j xs ! k = map ((!) xs) [i..<j] ! k"
    using assms by (simp add: py_slice_def)
qed

lemma decode_try_long:
  assumes "25 \<le> length buf"
  shows "decode_try buf =
    Inr \<lparr>voltage = real (256 * unat (buf ! 3) + unat (buf ! 4)) / 10,
         current = real (65536 * unat (buf ! 5) + 256 * unat (buf ! 6) + unat (buf ! 7)) / 1000,
         power_w = real (65536 * unat (buf ! 9) + 256 * unat (buf ! 10) + unat (buf ! 11)) / 10,
         energy = real (65536 * unat (buf ! 13) + 256 * unat (buf ! 14) + unat (buf ! 15)),
         status = ''OK''\<rparr>"
proof -
  have s1: "py_slice 3 5 buf = [buf ! 3, buf ! 4]"
    using assms by (simp add: py_slice_nth upt_rec)
  have s2: "py_slice 5 8 buf = [buf ! 5, buf ! 6, buf ! 7]"
    using assms by (simp add: py_slice_nth upt_rec)
  have s3: "py_slice 9 12 buf = [buf ! 9, buf ! 10, buf ! 11]"
    using assms by (simp add: py_slice_nth upt_rec)
  have s4: "py_slice 13 16 buf = [buf ! 13, buf ! 14, buf ! 15]"
    using assms by (simp add: py_slice_nth upt_rec)
  show ?thesis
    unfolding decode_try_def s1 s2 s3 s4
    by (simp add: struct_unpack_def be_uint_2 be_uint_4)
qed

lemma decode_try_short:
  assumes "length buf < 5"
  shows "\<exists>e. decode_try buf = Inl e"
proof -
  have "length (py_slice 3 5 buf) \<noteq> 2"
    using assms by (simp add: py_slice_def)
  then show ?thesis
    by (simp add: decode_try_def struct_unpack_def)
qed

text \<open>
  C3. A buffer of at least 25 bytes decodes to a reading whose voltage is the
  big-endian 2-byte field at offset 3 times 0.1, whose current is the 3-byte field at
  offset 5 (read big-endian, with a leading zero byte) times 0.001, whose power is the
  3-byte field at offset 9 times 0.1 and whose energy is the 3-byte field at offset 13
  unscaled; and whenever bytes 3 to 7 are 08 FC 00 00 96, the voltage is 230 and the
  current is 0.150.
\<close>

theorem decode_response_fields:
  assumes "25 \<le> length buf"
  shows "decode_response buf =
    Some \<lparr>voltage = real (256 * unat (buf ! 3) + unat (buf ! 4)) * 0.1,
          current = real (65536 * unat (buf ! 5) + 256 * unat (buf ! 6) + unat (buf ! 7)) * 0.001,
          power_w = real (65536 * unat (buf ! 9) + 256 * unat (buf ! 10) + unat (buf ! 11)) * 0.1,
          energy = real (65536 * unat (buf ! 13) + 256 * unat (buf ! 14) + unat (buf ! 15)),
          status = ''OK''\<rparr>
    \<and> (buf ! 3 = 0x08 \<and> buf ! 4 = 0xFC \<and> buf ! 5 = 0x00 \<and> buf ! 6 = 0x00 \<and> buf ! 7 = 0x96
        \<longrightarrow> (\<exists>r. decode_response buf = Some r \<and> voltage r = 230.0 \<and> current r = 0.150))"
proof -
  have "decode_response buf = (case decode_try buf of Inl e \<Rightarrow> None | Inr r \<Rightarrow> Some r)"
    using assms by (simp add: decode_response_def)
  then show ?thesis
    by (simp add: decode_try_long [OF assms])
qed

theorem decode_response_fields_witness:
  "25 \<le> length fixture
   \<and> fixture ! 3 = 0x08 \<and> fixture ! 4 = 0xFC
   \<and> fixture ! 5 = 0x00 \<and> fixture ! 6 = 0x00 \<and> fixture ! 7 = 0x96
   \<and> decode_response fixture =
       Some \<lparr>voltage = 230.0, current = 0.150, power_w = 34.5, energy = 42, status = ''OK''\<rparr>"
proof -
  have len: "25 \<le> length fixture"
    by (simp add: fixture_def)
  show ?thesis
    using decode_response_fields [OF len] by (simp add: fixture_def)
qed

text \<open>
  C7. The decoder returns a discriminated result on every buffer: \<open>None\<close> for every
  buffer shorter than 25 bytes, \<open>None\<close> whenever the extraction raises, and otherwise
  the complete reading that the extraction built.
\<close>

theorem decode_response_total:
  "(length buf < 25 \<longrightarrow> decode_response buf = None)
   \<and> (\<forall>e. decode_try buf = Inl e \<longrightarrow> decode_response buf = None)
   \<and> (decode_response buf = None
       \<or> (\<exists>r. decode_try buf = Inr r \<and> decode_response buf = Some r \<and> status r = ''OK''))"
proof (cases "length buf < 25")
  case True
  then show ?thesis by (simp add: decode_response_def)
next
  case False
  then have "25 \<le> length buf" by simp
  from decode_try_long [OF this] False show ?thesis
    by (simp add: decode_response_def)
qed

theorem decode_response_total_witness:
  "length ([0x01, 0x04, 0x14] :: byte list) < 25
   \<and> (\<exists>e. decode_try [0x01, 0x04, 0x14] = Inl e)
   \<and> decode_response [0x01, 0x04, 0x14] = None
   \<and> (\<exists>r. decode_try fixture = Inr r \<and> decode_response fixture = Some r)"
proof -
  have e: "\<exists>e. decode_try ([0x01, 0x04, 0x14] :: byte list) = Inl e"
    by (rule decode_try_short) simp
  have "decode_response fixture \<noteq> None"
    by (simp add: decode_response_def decode_try_long fixture_def)
  then show ?thesis
    using e decode_response_total [of "[0x01, 0x04, 0x14]"] decode_response_total [of fixture]
    by auto
qed

section \<open>Properties of the sensor\<close>

lemma read_hw_cases:
  assumes "\<not> simulate self"
  shows "(\<exists>r self'. serial_try self (port env) = (Inr r, self') \<and> read self env = (r, self'))
       \<or> (\<exists>e self'. serial_try self (port env) = (Inl e, self')
            \<and> read self env = (PzemReading_status (''Serial error: '' @ message e), self'))"
  using assms by (cases "serial_try self (port env)") (auto simp: read_def split: sum.splits)

lemma decode_response_status:
  assumes "decode_response buf = Some r"
  shows "status r = ''OK''"
proof -
  have len: "25 \<le> length buf"
    using assms by (simp add: decode_response_def split: if_splits)
  show ?thesis
    using assms decode_try_long [OF len] len by (auto simp: decode_response_def)
qed

lemma serial_body_returns:
  assumes "serial_body self ser = (Inr r, self')"
  shows "status r = ''OK'' \<or> r = PzemReading_status ''No response/Decode fail''"
  using assms
  by (auto simp: serial_body_def dest: decode_response_status
      split: option.splits sum.splits if_splits)

lemma serial_try_returns:
  assumes "serial_try self ser = (Inr r, self')"
  shows "status r = ''OK'' \<or> r = PzemReading_status ''No response/Decode fail''"
proof -
  obtain out s where b: "serial_body self ser = (out, s)"
    by (cases "serial_body self ser")
  with assms have "out = Inr r"
    by (auto simp: serial_try_def split: option.splits)
  with b show ?thesis
    using serial_body_returns by blast
qed

lemma serial_body_failure:
  assumes "serial_body self ser = (Inr r, self')"
    and "write_result ser \<noteq> None \<or> read_delay self < 0
         \<or> (case read_result ser of
               Inl e \<Rightarrow> True
             | Inr sent \<Rightarrow> sent = [] \<or> length sent < 25 \<or> decode_response (take 25 sent) = None)"
  shows "r = PzemReading_status ''No response/Decode fail''"
  using assms
  by (auto simp: serial_body_def decode_response_def
      split: option.splits sum.splits if_splits)

lemma serial_try_failure:
  assumes "serial_try self ser = (Inr r, self')"
    and "open_result ser \<noteq> None \<or> write_result ser \<noteq> None \<or> read_delay self < 0
         \<or> close_result ser \<noteq> None
         \<or> (case read_result ser of
               Inl e \<Rightarrow> True
             | Inr sent \<Rightarrow> sent = [] \<or> length sent < 25 \<or> decode_response (take 25 sent) = None)"
  shows "r = PzemReading_status ''No response/Decode fail''"
proof -
  obtain out s where b: "serial_body self ser = (out, s)"
    by (cases "serial_body self ser")
  with assms(1) have o: "out = Inr r" "open_result ser = None" "close_result ser = None"
    by (auto simp: serial_try_def split: option.splits)
  with b assms(2) show ?thesis
    using serial_body_failure [of self ser r s] by simp
qed

lemma error_reading:
  "s \<noteq> ''OK'' \<Longrightarrow> s \<noteq> ''SIM'' \<Longrightarrow>
   status (PzemReading_status s) \<noteq> ''OK'' \<and> status (PzemReading_status s) \<noteq> ''SIM''
   \<and> voltage (PzemReading_status s) = 0 \<and> current (PzemReading_status s) = 0
   \<and> power_w (PzemReading_status s) = 0 \<and> energy (PzemReading_status s) = 0"
  by (simp add: PzemReading_status_def)

text \<open>
  C6. \<^verbatim>\<open>read\<close> always returns a reading: its status is OK or SIM, or its four
  measurement fields are zero. In hardware mode, when the port raises at any step
  (open, write, sleep, read, close), when nothing or fewer than 25 bytes arrive, or when
  the decoder fails, the reading has an error status and voltage, current, power and
  energy are all zero.
\<close>

theorem read_never_fails:
  "(status (fst (read self env)) = ''OK'' \<or> status (fst (read self env)) = ''SIM''
    \<or> (voltage (fst (read self env)) = 0 \<and> current (fst (read self env)) = 0
        \<and> power_w (fst (read self env)) = 0 \<and> energy (fst (read self env)) = 0))
   \<and> (\<not> simulate self \<and>
       (open_result (port env) \<noteq> None \<or> write_result (port env) \<noteq> None
        \<or> read_delay self < 0 \<or> close_result (port env) \<noteq> None
        \<or> (case read_result (port env) of
              Inl e \<Rightarrow> True
            | Inr sent \<Rightarrow> sent = [] \<or> length sent < 25 \<or> decode_response (take 25 sent) = None))
       \<longrightarrow> status (fst (read self env)) \<noteq> ''OK'' \<and> status (fst (read self env)) \<noteq> ''SIM''
           \<and> voltage (fst (read self env)) = 0 \<and> current (fst (read self env)) = 0
           \<and> power_w (fst (read self env)) = 0 \<and> energy (fst (read self env)) = 0)"
proof (cases "simulate self")
  case True
  then show ?thesis
    by (simp add: read_def read_simulate_def Let_def)
next
  case False
  from read_hw_cases [OF False, of env] show ?thesis
  proof (elim disjE exE conjE)
    fix r self'
    assume t: "serial_try self (port env) = (Inr r, self')" and r: "read self env = (r, self')"
    from serial_try_returns [OF t] serial_try_failure [OF t] r
    show ?thesis
      using error_reading [of "''No response/Decode fail''"] by auto
  next
    fix e self'
    assume "read self env = (PzemReading_status (''Serial error: '' @ message e), self')"
    then show ?thesis
      using error_reading [of "''Serial error: '' @ message e"] by simp
  qed
qed

theorem read_never_fails_witness:
  "\<not> simulate hw_sensor
   \<and> read_result quiet_port = Inr []
   \<and> fst (read hw_sensor \<lparr>now = 0, port = quiet_port\<rparr>)
       = PzemReading_status ''No response/Decode fail''
   \<and> open_result (quiet_port\<lparr>open_result := Some (Error ''could not open port'')\<rparr>) \<noteq> None
   \<and> fst (read hw_sensor
        \<lparr>now = 0, port = quiet_port\<lparr>open_result := Some (Error ''could not open port'')\<rparr>\<rparr>)
       = PzemReading_status ''Serial error: could not open port''
   \<and> status (PzemReading_status ''Serial error: could not open port'') \<noteq> ''OK''
   \<and> status (PzemReading_status ''No response/Decode fail'') \<noteq> ''OK''"
  using read_never_fails [of hw_sensor "\<lparr>now = 0, port = quiet_port\<rparr>"]
    read_never_fails [of hw_sensor
      "\<lparr>now = 0, port = quiet_port\<lparr>open_result := Some (Error ''could not open port'')\<rparr>\<rparr>"]
  by (simp add: hw_sensor_def quiet_port_def PzemNative_init_def read_def serial_try_def
      serial_body_def decode_response_def PzemReading_status_def)


lemma read_simulate_voltage:
  "voltage (fst (read_simulate self t)) = 229.0 + 0.5
   \<or> voltage (fst (read_simulate self t)) = 229.0 - 0.5"
  by (simp add: read_simulate_def Let_def)

lemma read_simulate_energy:
  "last_energy self < energy (fst (read_simulate self t))"
  by (simp add: read_simulate_def Let_def)

lemma read_simulate_state:
  "last_energy (snd (read_simulate self t)) = energy (fst (read_simulate self t))"
  "simulate (snd (read_simulate self t)) = simulate self"
  by (simp_all add: read_simulate_def Let_def)

lemma reads_simulate:
  assumes "simulate self"
  shows "sorted (map energy (fst (reads self envs)))
    \<and> (\<forall>r \<in> set (fst (reads self envs)).
          last_energy self \<le> energy r \<and> 229.0 - 0.5 \<le> voltage r \<and> voltage r \<le> 229.0 + 0.5)"
  using assms
proof (induction envs arbitrary: self)
  case Nil
  then show ?case by simp
next
  case (Cons env envs)
  obtain r self' where rd: "read self env = (r, self')"
    by (cases "read self env")
  with Cons.prems have rs: "read_simulate self (now env) = (r, self')"
    by (simp add: read_def)
  have sim: "simulate self'" and le: "last_energy self' = energy r" and lt: "last_energy self < energy r"
    using rs read_simulate_state [of self "now env"] read_simulate_energy [of self "now env"] Cons.prems
    by simp_all
  have v: "229.0 - 0.5 \<le> voltage r \<and> voltage r \<le> 229.0 + 0.5"
    using rs read_simulate_voltage [of self "now env"] by auto
  obtain rs' self'' where rds: "reads self' envs = (rs', self'')"
    by (cases "reads self' envs")
  from Cons.IH [OF sim] rds le
  have ih: "sorted (map energy rs')"
    "\<forall>x \<in> set rs'. energy r \<le> energy x \<and> 229.0 - 0.5 \<le> voltage x \<and> voltage x \<le> 229.0 + 0.5"
    by simp_all
  have "fst (reads self (env # envs)) = r # rs'"
    using rd rds by simp
  with ih v lt show ?case
    by auto
qed

lemma reads_length: "length (fst (reads self envs)) = length envs"
proof (induction envs arbitrary: self)
  case Nil
  then show ?case by simp
next
  case (Cons env envs)
  obtain r self' where rd: "read self env = (r, self')"
    by (cases "read self env")
  obtain rs self'' where rds: "reads self' envs = (rs, self'')"
    by (cases "reads self' envs")
  from Cons.IH [of self'] rd rds show ?case
    by simp
qed

text \<open>
  C8. In simulate mode, the energies returned by consecutive calls of \<^verbatim>\<open>read\<close>
  on one sensor object are non-decreasing, and every returned voltage lies in the band
  229.0 plus or minus 0.5 V; each call returns one reading.
\<close>

theorem simulate_energy_monotone:
  assumes "simulate self"
  shows "sorted (map energy (fst (reads self envs)))
    \<and> (\<forall>r \<in> set (fst (reads self envs)). 229.0 - 0.5 \<le> voltage r \<and> voltage r \<le> 229.0 + 0.5)
    \<and> length (fst (reads self envs)) = length envs"
  using reads_simulate [OF assms, of envs] reads_length [of self envs] by blast

theorem simulate_energy_monotone_witness:
  "simulate sim_sensor
   \<and> map energy (fst (reads sim_sensor
        [\<lparr>now = 0, port = quiet_port\<rparr>, \<lparr>now = 1.5, port = quiet_port\<rparr>, \<lparr>now = 3, port = quiet_port\<rparr>]))
      = [51 / 1000, 229 / 2250, 3509 / 24000]
   \<and> map voltage (fst (reads sim_sensor
        [\<lparr>now = 0, port = quiet_port\<rparr>, \<lparr>now = 1.5, port = quiet_port\<rparr>, \<lparr>now = 3, port = quiet_port\<rparr>]))
      = [229.5, 228.5, 228.5]"
proof -
  have sim: "simulate sim_sensor"
    by (simp add: sim_sensor_def PzemNative_init_def)
  show ?thesis
    using sim simulate_energy_monotone [OF sim,
        of "[\<lparr>now = 0, port = quiet_port\<rparr>, \<lparr>now = 1.5, port = quiet_port\<rparr>, \<lparr>now = 3, port = quiet_port\<rparr>]"]
    by (simp add: sim_sensor_def PzemNative_init_def read_def read_simulate_def Let_def py_int_def)
qed

section \<open>Properties of node resolution\<close>

lemma walk_path_failed:
  assumes "walk_path s cur path = Inl r"
  shows "(\<exists>e. r = Raised e) \<or> (\<exists>seg \<in> set path. r = BrowseFailed seg)"
  using assms
  by (induction path arbitrary: cur) (auto split: sum.splits option.splits)

lemma pick_variables_done:
  assumes "pick_variables s cur names ns = (None, ns')"
  shows "fst ` set ns' = fst ` set ns \<union> set names"
  using assms
  by (induction names arbitrary: ns)
     (auto split: sum.splits option.splits simp: dom_update)

lemma pick_variables_distinct:
  assumes "pick_variables s cur names ns = (out, ns')" and "distinct (map fst ns)"
  shows "distinct (map fst ns')"
  using assms
proof (induction names arbitrary: ns)
  case Nil
  then show ?case by simp
next
  case (Cons a names)
  show ?case
  proof (cases "find_child_by_browse_name s cur a")
    case (Inl e)
    with Cons.prems show ?thesis by auto
  next
    case (Inr found)
    show ?thesis
    proof (cases found)
      case None
      with Inr Cons.prems show ?thesis by auto
    next
      case (Some n)
      with Inr Cons.prems have "pick_variables s cur names (AList.update a n ns) = (out, ns')"
        by simp
      moreover have "distinct (map fst (AList.update a n ns))"
        using Cons.prems(2) by (rule distinct_update)
      ultimately show ?thesis
        by (rule Cons.IH)
    qed
  qed
qed

lemma pick_variables_left:
  assumes "pick_variables s cur names ns = (Some r, ns')"
  shows "\<exists>pre name post. names = pre @ name # post
           \<and> fst ` set ns' = fst ` set ns \<union> set pre
           \<and> (r = VariableNotFound name \<or> (\<exists>e. r = Raised e))"
  using assms
proof (induction names arbitrary: ns)
  case Nil
  then show ?case by simp
next
  case (Cons a names)
  show ?case
  proof (cases "find_child_by_browse_name s cur a")
    case (Inl e)
    with Cons.prems have "ns' = ns" "r = Raised e"
      by auto
    then have "a # names = [] @ a # names \<and> fst ` set ns' = fst ` set ns \<union> set []
        \<and> (r = VariableNotFound a \<or> (\<exists>e. r = Raised e))"
      by simp
    then show ?thesis by blast
  next
    case (Inr found)
    show ?thesis
    proof (cases found)
      case None
      with Inr Cons.prems have "ns' = ns" "r = VariableNotFound a"
        by auto
      then have "a # names = [] @ a # names \<and> fst ` set ns' = fst ` set ns \<union> set []
          \<and> (r = VariableNotFound a \<or> (\<exists>e. r = Raised e))"
        by simp
      then show ?thesis by blast
    next
      case (Some n)
      with Inr Cons.prems have "pick_variables s cur names (AList.update a n ns) = (Some r, ns')"
        by simp
      from Cons.IH [OF this] obtain pre name post where
        p: "names = pre @ name # post"
        "fst ` set ns' = fst ` set (AList.update a n ns) \<union> set pre"
        "r = VariableNotFound name \<or> (\<exists>e. r = Raised e)"
        by blast
      have "a # names = (a # pre) @ name # post"
        using p(1) by simp
      moreover have "fst ` set ns' = fst ` set ns \<union> set (a # pre)"
        using p(2) by (auto simp: dom_update)
      ultimately show ?thesis
        using p(3) by blast
    qed
  qed
qed

lemma walk_path_append:
  "walk_path s cur (pre @ rest) =
     (case walk_path s cur pre of Inl r \<Rightarrow> Inl r | Inr c \<Rightarrow> walk_path s c rest)"
  by (induction pre arbitrary: cur) (auto split: sum.splits option.splits)

lemma missing_segment_fails:
  assumes "channel_path w = pre @ seg # post"
    and "walk_path s (machine_root_id w) pre = Inr cur"
    and "find_child_by_browse_name s cur seg = Inr None"
  shows "resolve_nodes s w = (BrowseFailed seg, w)"
proof -
  have "walk_path s (machine_root_id w) (channel_path w) = Inl (BrowseFailed seg)"
    using assms by (simp add: walk_path_append)
  then show ?thesis
    by (simp add: resolve_nodes_def)
qed

lemma pick_variables_append:
  "pick_variables s cur (pre @ rest) ns =
     (case pick_variables s cur pre ns of
        (Some r, ns') \<Rightarrow> (Some r, ns')
      | (None, ns') \<Rightarrow> pick_variables s cur rest ns')"
  by (induction pre arbitrary: ns) (auto split: sum.splits option.splits)

lemma missing_variable_fails:
  assumes "walk_path s (machine_root_id w) (channel_path w) = Inr cur"
    and "variable_names w = pre @ name # post"
    and "pick_variables s cur pre (nodes w) = (None, ns)"
    and "find_child_by_browse_name s cur name = Inr None"
  shows "resolve_nodes s w = (VariableNotFound name, w\<lparr>nodes := ns\<rparr>)"
proof -
  have "pick_variables s cur (variable_names w) (nodes w) = (Some (VariableNotFound name), ns)"
    using assms(2-4) by (simp add: pick_variables_append)
  then show ?thesis
    using assms(1) by (simp add: resolve_nodes_def)
qed

text \<open>
  C1 (as amended). Node resolution either returns true, and then the stored node map has
  gained exactly the requested variable names (for a freshly constructed writer, whose
  map is empty, it holds exactly the requested names, one entry per name), or fails. When
  a path segment is missing, the failure names a segment of the path and the writer, with
  its stored node map, is unchanged. When a variable is missing, the stored node map has
  gained the names that precede the missing one in the list: resolution is not atomic.
  Only the node map of the writer ever changes.
\<close>

theorem resolve_nodes_outcome:
  "(fst (resolve_nodes s w) = Resolved \<longrightarrow>
      fst ` set (nodes (snd (resolve_nodes s w))) = fst ` set (nodes w) \<union> set (variable_names w))
   \<and> (fst (resolve_nodes s w) = Resolved \<and> nodes w = [] \<longrightarrow>
        fst ` set (nodes (snd (resolve_nodes s w))) = set (variable_names w)
        \<and> distinct (map fst (nodes (snd (resolve_nodes s w)))))
   \<and> (\<forall>seg. fst (resolve_nodes s w) = BrowseFailed seg \<longrightarrow>
        seg \<in> set (channel_path w) \<and> snd (resolve_nodes s w) = w)
   \<and> (\<forall>name. fst (resolve_nodes s w) = VariableNotFound name \<longrightarrow>
        (\<exists>pre post. variable_names w = pre @ name # post
           \<and> fst ` set (nodes (snd (resolve_nodes s w))) = fst ` set (nodes w) \<union> set pre))
   \<and> snd (resolve_nodes s w) = w\<lparr>nodes := nodes (snd (resolve_nodes s w))\<rparr>"
proof (cases "walk_path s (machine_root_id w) (channel_path w)")
  case (Inl r)
  then have "resolve_nodes s w = (r, w)"
    by (simp add: resolve_nodes_def)
  with walk_path_failed [OF Inl] show ?thesis
    by auto
next
  case (Inr cur)
  obtain out ns where pk: "pick_variables s cur (variable_names w) (nodes w) = (out, ns)"
    by (cases "pick_variables s cur (variable_names w) (nodes w)")
  show ?thesis
  proof (cases out)
    case None
    with Inr pk have r: "snd (resolve_nodes s w) = w\<lparr>nodes := ns\<rparr>"
      "(\<exists>e. fst (resolve_nodes s w) = Raised e) \<or> fst (resolve_nodes s w) = Resolved"
      by (auto simp: resolve_nodes_def split: option.splits)
    from pk None have d: "fst ` set ns = fst ` set (nodes w) \<union> set (variable_names w)"
      using pick_variables_done by blast
    have "nodes w = [] \<longrightarrow> distinct (map fst ns)"
      using pick_variables_distinct [OF pk] by simp
    with r d show ?thesis
      by auto
  next
    case (Some r)
    with Inr pk have rn: "resolve_nodes s w = (r, w\<lparr>nodes := ns\<rparr>)"
      by (simp add: resolve_nodes_def)
    from pk Some obtain pre name post where
      p: "variable_names w = pre @ name # post"
      "fst ` set ns = fst ` set (nodes w) \<union> set pre"
      "r = VariableNotFound name \<or> (\<exists>e. r = Raised e)"
      using pick_variables_left by blast
    from rn p show ?thesis
      by auto
  qed
qed

theorem resolve_nodes_outcome_witness:
  "resolve_nodes demo_space writer_ok =
     (Resolved, writer_ok\<lparr>nodes := [(''AcVoltagePe'', 2), (''AcCurrentPe'', 3)]\<rparr>)
   \<and> nodes writer_ok = []
   \<and> resolve_nodes demo_space writer_bad_path = (BrowseFailed ''Monitoring'', writer_bad_path)
   \<and> resolve_nodes demo_space writer_bad_var =
       (VariableNotFound ''AcActivePowerPe'', writer_bad_var\<lparr>nodes := [(''AcVoltagePe'', 2)]\<rparr>)
   \<and> variable_names writer_bad_var = [''AcVoltagePe''] @ ''AcActivePowerPe'' # []"
  using resolve_nodes_outcome [of demo_space writer_ok]
    resolve_nodes_outcome [of demo_space writer_bad_path]
    resolve_nodes_outcome [of demo_space writer_bad_var]
  by (simp add: resolve_nodes_def find_child_by_browse_name_def demo_space_def writer_ok_def
      writer_bad_path_def writer_bad_var_def UmatiPrWriter_init_def)

text \<open>
  C1 as stated fails: with the first variable present and the second missing, resolution
  fails and leaves the first variable in the stored node map, which was empty before.
\<close>

theorem resolve_nodes_not_atomic:
  "fst (resolve_nodes demo_space writer_bad_var) = VariableNotFound ''AcActivePowerPe''
   \<and> nodes writer_bad_var = []
   \<and> nodes (snd (resolve_nodes demo_space writer_bad_var)) = [(''AcVoltagePe'', 2)]
   \<and> nodes (snd (resolve_nodes demo_space writer_bad_var)) \<noteq> nodes writer_bad_var"
  by (simp add: resolve_nodes_def find_child_by_browse_name_def demo_space_def
      writer_bad_var_def UmatiPrWriter_init_def)

section \<open>Properties of the writer\<close>

lemma write_loop_append:
  "write_loop wv ns vals (xs @ ys) ok srv =
     (case write_loop wv ns vals xs ok srv of
        (Inl e, evs, s) \<Rightarrow> (Inl e, evs, s)
      | (Inr ok', evs, s) \<Rightarrow>
          (case write_loop wv ns vals ys ok' s of (r, evs', s') \<Rightarrow> (r, evs @ evs', s')))"
proof (induction xs arbitrary: ok srv)
  case Nil
  then show ?case by (simp split: prod.splits)
next
  case (Cons a xs)
  show ?case
  proof (cases "map_of ns a")
    case None
    then show ?thesis
      by (simp add: Cons.IH split: prod.splits sum.splits)
  next
    case (Some n)
    then show ?thesis
      by (cases "wv n (dict_get vals a 0) srv")
         (auto simp: Cons.IH Let_def split: prod.splits sum.splits option.splits)
  qed
qed

lemma write_loop_completes:
  assumes "write_loop wv ns vals names ok srv = (Inr ok', evs, srv')"
  shows "evs = map (item_event ns vals) names
    \<and> ok' = (ok \<and> (\<forall>name \<in> set names. map_of ns name \<noteq> None))"
  using assms
proof (induction names arbitrary: ok srv evs)
  case Nil
  then show ?case by simp
next
  case (Cons a names)
  show ?case
  proof (cases "map_of ns a")
    case None
    obtain r e2 s2 where rest: "write_loop wv ns vals names False srv = (r, e2, s2)"
      by (cases "write_loop wv ns vals names False srv")
    with None Cons.prems have "r = Inr ok'" "evs = ErrNotResolved a # e2" "s2 = srv'"
      by simp_all
    with rest Cons.IH [of False srv e2] None show ?thesis
      by (simp add: item_event_def)
  next
    case (Some n)
    obtain out s1 where w: "wv n (dict_get vals a 0) srv = (out, s1)"
      by (cases "wv n (dict_get vals a 0) srv")
    obtain r e2 s2 where rest: "write_loop wv ns vals names ok s1 = (r, e2, s2)"
      by (cases "write_loop wv ns vals names ok s1")
    from Some w rest Cons.prems have "out = None" "r = Inr ok'" "evs = EvWrite n (dict_get vals a 0) # e2" "s2 = srv'"
      by (auto simp: Let_def split: option.splits)
    with rest Cons.IH [of ok s1 e2] Some show ?thesis
      by (simp add: item_event_def)
  qed
qed

lemma write_loop_aborts:
  assumes "write_loop wv ns vals names ok srv = (Inl e, evs, srv')"
  shows "\<exists>pre name post n ok0 s0. names = pre @ name # post \<and> map_of ns name = Some n
     \<and> write_loop wv ns vals pre ok srv = (Inr ok0, map (item_event ns vals) pre, s0)
     \<and> wv n (dict_get vals name 0.0) s0 = (Some e, srv')
     \<and> evs = map (item_event ns vals) pre @ [EvWrite n (dict_get vals name 0.0)]"
  using assms
proof (induction names arbitrary: ok srv evs)
  case Nil
  then show ?case by simp
next
  case (Cons a names)
  show ?case
  proof (cases "map_of ns a")
    case None
    obtain r e2 s2 where rest: "write_loop wv ns vals names False srv = (r, e2, s2)"
      by (cases "write_loop wv ns vals names False srv")
    with None Cons.prems have "r = Inl e" "evs = ErrNotResolved a # e2" "s2 = srv'"
      by simp_all
    with rest Cons.IH [of False srv e2] obtain pre name post n ok0 s0 where
      p: "names = pre @ name # post" "map_of ns name = Some n"
      "write_loop wv ns vals pre False srv = (Inr ok0, map (item_event ns vals) pre, s0)"
      "wv n (dict_get vals name 0.0) s0 = (Some e, srv')"
      "e2 = map (item_event ns vals) pre @ [EvWrite n (dict_get vals name 0.0)]"
      by blast
    have "a # names = (a # pre) @ name # post"
      using p(1) by simp
    moreover have "write_loop wv ns vals (a # pre) ok srv
        = (Inr ok0, map (item_event ns vals) (a # pre), s0)"
      using None p(3) by (simp add: item_event_def)
    moreover have "evs = map (item_event ns vals) (a # pre) @ [EvWrite n (dict_get vals name 0.0)]"
      using \<open>evs = ErrNotResolved a # e2\<close> p(5) None by (simp add: item_event_def)
    ultimately show ?thesis
      using p(2) p(4) by blast
  next
    case (Some m)
    obtain out s1 where w: "wv m (dict_get vals a 0) srv = (out, s1)"
      by (cases "wv m (dict_get vals a 0) srv")
    show ?thesis
    proof (cases out)
      case (Some e')
      with \<open>map_of ns a = Some m\<close> w Cons.prems
      have "e' = e" "evs = [EvWrite m (dict_get vals a 0)]" "s1 = srv'"
        by (simp_all add: Let_def)
      with w Some \<open>map_of ns a = Some m\<close>
      have "a # names = [] @ a # names \<and> map_of ns a = Some m
        \<and> write_loop wv ns vals [] ok srv = (Inr ok, map (item_event ns vals) [], srv)
        \<and> wv m (dict_get vals a 0.0) srv = (Some e, srv')
        \<and> evs = map (item_event ns vals) [] @ [EvWrite m (dict_get vals a 0.0)]"
        by simp
      then show ?thesis by blast
    next
      case None
      obtain r e2 s2 where rest: "write_loop wv ns vals names ok s1 = (r, e2, s2)"
        by (cases "write_loop wv ns vals names ok s1")
      with None \<open>map_of ns a = Some m\<close> w Cons.prems
      have "r = Inl e" "evs = EvWrite m (dict_get vals a 0) # e2" "s2 = srv'"
        by (simp_all add: Let_def)
      with rest Cons.IH [of ok s1 e2] obtain pre name post n ok0 s0 where
        p: "names = pre @ name # post" "map_of ns name = Some n"
        "write_loop wv ns vals pre ok s1 = (Inr ok0, map (item_event ns vals) pre, s0)"
        "wv n (dict_get vals name 0.0) s0 = (Some e, srv')"
        "e2 = map (item_event ns vals) pre @ [EvWrite n (dict_get vals name 0.0)]"
        by blast
      have "a # names = (a # pre) @ name # post"
        using p(1) by simp
      moreover have "write_loop wv ns vals (a # pre) ok srv
          = (Inr ok0, map (item_event ns vals) (a # pre), s0)"
        using None \<open>map_of ns a = Some m\<close> w p(3) by (simp add: item_event_def Let_def)
      moreover have "evs = map (item_event ns vals) (a # pre) @ [EvWrite n (dict_get vals name 0.0)]"
        using \<open>evs = EvWrite m (dict_get vals a 0) # e2\<close> p(5) \<open>map_of ns a = Some m\<close>
        by (simp add: item_event_def)
      ultimately show ?thesis
        using p(2) p(4) by blast
    qed
  qed
qed

lemma write_loop_all_ok:
  assumes "\<forall>n v s. fst (wv n v s) = None"
  shows "\<exists>ok' srv'. write_loop wv ns vals names ok srv = (Inr ok', map (item_event ns vals) names, srv')"
proof (induction names arbitrary: ok srv)
  case Nil
  then show ?case by simp
next
  case (Cons a names)
  show ?case
  proof (cases "map_of ns a")
    case None
    from Cons.IH [of False srv] obtain ok' srv' where
      "write_loop wv ns vals names False srv = (Inr ok', map (item_event ns vals) names, srv')"
      by blast
    with None show ?thesis
      by (simp add: item_event_def)
  next
    case (Some n)
    obtain out s1 where w: "wv n (dict_get vals a 0) srv = (out, s1)"
      by (cases "wv n (dict_get vals a 0) srv")
    with assms have o: "out = None"
      by (metis fst_conv)
    from Cons.IH [of ok s1] obtain ok' srv' where
      "write_loop wv ns vals names ok s1 = (Inr ok', map (item_event ns vals) names, srv')"
      by blast
    with Some w o show ?thesis
      by (simp add: item_event_def Let_def)
  qed
qed

lemma write_loop_writes_succeed:
  assumes "writes_succeed wv (writes_of ns vals names) srv"
  shows "write_loop wv ns vals names ok srv
    = (Inr (ok \<and> (\<forall>name \<in> set names. map_of ns name \<noteq> None)),
       map (item_event ns vals) names, srv_after wv (writes_of ns vals names) srv)"
  using assms
proof (induction names arbitrary: ok srv)
  case Nil
  then show ?case by simp
next
  case (Cons a names)
  show ?case
  proof (cases "map_of ns a")
    case None
    with Cons.prems have "writes_succeed wv (writes_of ns vals names) srv"
      by simp
    from Cons.IH [OF this, of False] None show ?thesis
      by (simp add: item_event_def)
  next
    case (Some n)
    obtain out s1 where w: "wv n (dict_get vals a 0) srv = (out, s1)"
      by (cases "wv n (dict_get vals a 0) srv")
    with Some Cons.prems have o: "out = None" and r: "writes_succeed wv (writes_of ns vals names) s1"
      by (cases out; simp)+
    from Cons.IH [OF r, of ok] Some w o show ?thesis
      by (simp add: item_event_def Let_def)
  qed
qed

lemma write_loop_completes_succeed:
  assumes "write_loop wv ns vals names ok srv = (Inr ok', evs, srv')"
  shows "writes_succeed wv (writes_of ns vals names) srv"
  using assms
proof (induction names arbitrary: ok srv evs srv')
  case Nil
  then show ?case by simp
next
  case (Cons a names)
  show ?case
  proof (cases "map_of ns a")
    case None
    obtain r e2 s2 where rest: "write_loop wv ns vals names False srv = (r, e2, s2)"
      by (cases "write_loop wv ns vals names False srv")
    with None Cons.prems have "r = Inr ok'"
      by simp
    with rest Cons.IH [of False srv e2 s2] None show ?thesis
      by simp
  next
    case (Some n)
    obtain out s1 where w: "wv n (dict_get vals a 0) srv = (out, s1)"
      by (cases "wv n (dict_get vals a 0) srv")
    obtain r e2 s2 where rest: "write_loop wv ns vals names ok s1 = (r, e2, s2)"
      by (cases "write_loop wv ns vals names ok s1")
    from Some w rest Cons.prems have "out = None" "r = Inr ok'"
      by (auto simp: Let_def split: option.splits)
    with rest Cons.IH [of ok s1 e2 s2] Some w show ?thesis
      by simp
  qed
qed

lemma write_loop_raising_write:
  assumes "map_of ns name = Some n"
    and "writes_succeed wv (writes_of ns vals pre) srv"
    and "wv n (dict_get vals name 0.0) (srv_after wv (writes_of ns vals pre) srv) = (Some e, s1)"
  shows "write_loop wv ns vals (pre @ name # post) ok srv
    = (Inl e, map (item_event ns vals) pre @ [EvWrite n (dict_get vals name 0.0)], s1)"
proof -
  have "write_loop wv ns vals (name # post) ok' (srv_after wv (writes_of ns vals pre) srv)
      = (Inl e, [EvWrite n (dict_get vals name 0.0)], s1)" for ok'
    using assms(1) assms(3) by (simp add: Let_def)
  then show ?thesis
    by (simp add: write_loop_append write_loop_writes_succeed [OF assms(2)])
qed

lemma write_loop_passing_write:
  assumes "map_of ns name = Some n"
    and "writes_succeed wv (writes_of ns vals pre) srv"
    and "wv n (dict_get vals name 0.0) (srv_after wv (writes_of ns vals pre) srv) = (None, s1)"
  shows "write_loop wv ns vals (pre @ [name]) ok srv
    = (Inr (ok \<and> (\<forall>x \<in> set pre. map_of ns x \<noteq> None)),
       map (item_event ns vals) pre @ [EvWrite n (dict_get vals name 0.0)], s1)"
proof -
  have "write_loop wv ns vals [name] ok' (srv_after wv (writes_of ns vals pre) srv)
      = (Inr ok', [EvWrite n (dict_get vals name 0.0)], s1)" for ok'
    using assms(1) assms(3) by (simp add: Let_def)
  then show ?thesis
    by (simp add: write_loop_append write_loop_writes_succeed [OF assms(2)])
qed

lemma write_values_shape:
  "case write_values wv self vals srv of
      (ok, evs, srv') \<Rightarrow>
        (evs = map (item_event (nodes self) vals) (variable_names self)
           \<and> ok = (\<forall>name \<in> set (variable_names self). map_of (nodes self) name \<noteq> None))
        \<or> (\<not> ok \<and> (\<exists>pre name post n e ok0 s0.
              variable_names self = pre @ name # post \<and> map_of (nodes self) name = Some n
              \<and> write_loop wv (nodes self) vals pre True srv
                  = (Inr ok0, map (item_event (nodes self) vals) pre, s0)
              \<and> wv n (dict_get vals name 0.0) s0 = (Some e, srv')
              \<and> evs = map (item_event (nodes self) vals) pre
                        @ [EvWrite n (dict_get vals name 0.0), ErrWriteException e]))"
proof -
  obtain r evs srv' where wl:
    "write_loop wv (nodes self) vals (variable_names self) True srv = (r, evs, srv')"
    by (cases "write_loop wv (nodes self) vals (variable_names self) True srv")
  show ?thesis
  proof (cases r)
    case (Inr ok)
    with wl have w: "write_values wv self vals srv = (ok, evs, srv')"
      by (simp add: write_values_def)
    from wl Inr have "evs = map (item_event (nodes self) vals) (variable_names self)
      \<and> ok = (True \<and> (\<forall>name \<in> set (variable_names self). map_of (nodes self) name \<noteq> None))"
      by (intro write_loop_completes) simp
    then have "evs = map (item_event (nodes self) vals) (variable_names self)
      \<and> ok = (\<forall>name \<in> set (variable_names self). map_of (nodes self) name \<noteq> None)"
      by simp
    then show ?thesis
      unfolding w prod.case by (rule disjI1)
  next
    case (Inl e)
    with wl have w: "write_values wv self vals srv = (False, evs @ [ErrWriteException e], srv')"
      by (simp add: write_values_def)
    from wl Inl have "write_loop wv (nodes self) vals (variable_names self) True srv
        = (Inl e, evs, srv')"
      by simp
    from write_loop_aborts [OF this] obtain pre name post n ok0 s0 where
      f: "variable_names self = pre @ name # post" "map_of (nodes self) name = Some n"
      "write_loop wv (nodes self) vals pre True srv
         = (Inr ok0, map (item_event (nodes self) vals) pre, s0)"
      "wv n (dict_get vals name 0.0) s0 = (Some e, srv')"
      "evs = map (item_event (nodes self) vals) pre @ [EvWrite n (dict_get vals name 0.0)]"
      by blast
    have g: "evs @ [ErrWriteException e] = map (item_event (nodes self) vals) pre
                        @ [EvWrite n (dict_get vals name 0.0), ErrWriteException e]"
      unfolding f(5) by simp
    have "\<not> False \<and> (\<exists>pre name post n e' ok0 s0.
              variable_names self = pre @ name # post \<and> map_of (nodes self) name = Some n
              \<and> write_loop wv (nodes self) vals pre True srv
                  = (Inr ok0, map (item_event (nodes self) vals) pre, s0)
              \<and> wv n (dict_get vals name 0.0) s0 = (Some e', srv')
              \<and> evs @ [ErrWriteException e] = map (item_event (nodes self) vals) pre
                        @ [EvWrite n (dict_get vals name 0.0), ErrWriteException e'])"
      using f(1-4) g by blast
    then show ?thesis
      unfolding w prod.case by (rule disjI2)
  qed
qed

lemma write_values_no_raise:
  "(\<forall>n v s. fst (wv n v s) = None) \<longrightarrow>
        fst (snd (write_values wv self vals srv))
          = map (item_event (nodes self) vals) (variable_names self)"
proof
  assume "\<forall>n v s. fst (wv n v s) = None"
  from write_loop_all_ok [OF this, of "nodes self" vals "variable_names self" True srv]
  obtain ok' srv' where "write_loop wv (nodes self) vals (variable_names self) True srv
      = (Inr ok', map (item_event (nodes self) vals) (variable_names self), srv')"
    by blast
  then show "fst (snd (write_values wv self vals srv))
        = map (item_event (nodes self) vals) (variable_names self)"
    by (simp add: write_values_def)
qed

lemma write_values_all_succeed:
  assumes "writes_succeed wv (writes_of (nodes self) vals (variable_names self)) srv"
  shows "write_values wv self vals srv
          = ((\<forall>name \<in> set (variable_names self). map_of (nodes self) name \<noteq> None),
             map (item_event (nodes self) vals) (variable_names self),
             srv_after wv (writes_of (nodes self) vals (variable_names self)) srv)"
  by (simp add: write_values_def write_loop_writes_succeed [OF assms])

lemma raising_write_ends_batch:
  assumes "variable_names self = pre @ name # post"
    and "map_of (nodes self) name = Some n"
    and "writes_succeed wv (writes_of (nodes self) vals pre) srv"
    and "wv n (dict_get vals name 0.0) (srv_after wv (writes_of (nodes self) vals pre) srv)
          = (Some e, s1)"
  shows "write_values wv self vals srv
          = (False,
             map (item_event (nodes self) vals) pre
               @ [EvWrite n (dict_get vals name 0.0), ErrWriteException e],
             s1)"
  by (simp add: write_values_def assms(1) write_loop_raising_write [OF assms(2) assms(3) assms(4)])

lemma write_values_true_only_if:
  assumes "fst (write_values wv self vals srv)"
  shows "(\<forall>name \<in> set (variable_names self). map_of (nodes self) name \<noteq> None)
    \<and> writes_succeed wv (writes_of (nodes self) vals (variable_names self)) srv"
proof -
  obtain r evs srv' where wl:
    "write_loop wv (nodes self) vals (variable_names self) True srv = (r, evs, srv')"
    by (cases "write_loop wv (nodes self) vals (variable_names self) True srv")
  with assms obtain ok where r: "r = Inr ok" and ok: "ok"
    by (cases r) (simp_all add: write_values_def)
  from wl r have c: "write_loop wv (nodes self) vals (variable_names self) True srv
      = (Inr ok, evs, srv')"
    by simp
  from write_loop_completes [OF c] ok
  have "\<forall>name \<in> set (variable_names self). map_of (nodes self) name \<noteq> None"
    by simp
  moreover from c have "writes_succeed wv (writes_of (nodes self) vals (variable_names self)) srv"
    by (rule write_loop_completes_succeed)
  ultimately show ?thesis by simp
qed

text \<open>
  C2 (as amended). \<^verbatim>\<open>write_values\<close> never throws: it returns a flag. It visits the
  names of the writer's fixed variable-name list in that list's order. An unresolved name
  is logged as a failure and the loop continues. A write that raises ends the batch at
  that name: the exception is logged, the names after it are not visited, and the
  result is false. The result is true only if every name was resolved and every write
  succeeded; when every write succeeds, every name is visited and the result tells
  whether every name was resolved.
\<close>

theorem write_values_outcome:
  "(case write_values wv self vals srv of
      (ok, evs, srv') \<Rightarrow>
        (evs = map (item_event (nodes self) vals) (variable_names self)
           \<and> ok = (\<forall>name \<in> set (variable_names self). map_of (nodes self) name \<noteq> None))
        \<or> (\<not> ok \<and> (\<exists>pre name post n e ok0 s0.
              variable_names self = pre @ name # post \<and> map_of (nodes self) name = Some n
              \<and> write_loop wv (nodes self) vals pre True srv
                  = (Inr ok0, map (item_event (nodes self) vals) pre, s0)
              \<and> wv n (dict_get vals name 0.0) s0 = (Some e, srv')
              \<and> evs = map (item_event (nodes self) vals) pre
                        @ [EvWrite n (dict_get vals name 0.0), ErrWriteException e])))
   \<and> ((\<forall>n v s. fst (wv n v s) = None) \<longrightarrow>
        fst (snd (write_values wv self vals srv))
          = map (item_event (nodes self) vals) (variable_names self))
   \<and> (writes_succeed wv (writes_of (nodes self) vals (variable_names self)) srv \<longrightarrow>
        write_values wv self vals srv
          = ((\<forall>name \<in> set (variable_names self). map_of (nodes self) name \<noteq> None),
             map (item_event (nodes self) vals) (variable_names self),
             srv_after wv (writes_of (nodes self) vals (variable_names self)) srv))
   \<and> (\<forall>pre name post n e s1.
        variable_names self = pre @ name # post \<and> map_of (nodes self) name = Some n
        \<and> writes_succeed wv (writes_of (nodes self) vals pre) srv
        \<and> wv n (dict_get vals name 0.0) (srv_after wv (writes_of (nodes self) vals pre) srv)
            = (Some e, s1)
        \<longrightarrow> write_values wv self vals srv
              = (False,
                 map (item_event (nodes self) vals) pre
                   @ [EvWrite n (dict_get vals name 0.0), ErrWriteException e],
                 s1))
   \<and> (fst (write_values wv self vals srv) \<longrightarrow>
        (\<forall>name \<in> set (variable_names self). map_of (nodes self) name \<noteq> None)
        \<and> writes_succeed wv (writes_of (nodes self) vals (variable_names self)) srv)"
  (is "?shape \<and> ?no_raise \<and> ?all_succeed \<and> ?raising \<and> ?only_if")
proof -
  have "?shape"
    by (rule write_values_shape)
  moreover have "?no_raise"
    by (rule write_values_no_raise)
  moreover have "?all_succeed"
    by (rule impI) (rule write_values_all_succeed)
  moreover have "?raising"
    by (intro allI impI, elim conjE) (rule raising_write_ends_batch; assumption)
  moreover have "?only_if"
    by (rule impI) (rule write_values_true_only_if)
  ultimately show ?thesis
    by (intro conjI)
qed

theorem write_values_outcome_witness:
  "(\<forall>n v s. fst (demo_wv [] n v s) = None)
   \<and> writes_succeed (demo_wv [])
         (writes_of (nodes writer_partial) payload_vi (variable_names writer_partial)) []
   \<and> write_values (demo_wv []) writer_partial payload_vi []
       = (False, [ErrNotResolved ''AcVoltagePe'', EvWrite 3 0.150], [(3, 0.150)])
   \<and> fst (write_values (demo_wv []) writer_resolved payload_vi [])
   \<and> write_values (demo_wv []) writer_resolved payload_vi []
       = (True, [EvWrite 2 230.0, EvWrite 3 0.150], [(2, 230.0), (3, 0.150)])
   \<and> variable_names writer_resolved = [''AcVoltagePe''] @ ''AcCurrentPe'' # []
   \<and> map_of (nodes writer_resolved) ''AcCurrentPe'' = Some 3
   \<and> writes_succeed (demo_wv [3]) (writes_of (nodes writer_resolved) payload_vi [''AcVoltagePe'']) []
   \<and> demo_wv [3] 3 (dict_get payload_vi ''AcCurrentPe'' 0.0)
         (srv_after (demo_wv [3]) (writes_of (nodes writer_resolved) payload_vi [''AcVoltagePe'']) [])
       = (Some (Error ''BadUserAccessDenied''), [(2, 230.0)])
   \<and> write_values (demo_wv [3]) writer_resolved payload_vi []
       = (False, [EvWrite 2 230.0, EvWrite 3 0.150,
                  ErrWriteException (Error ''BadUserAccessDenied'')], [(2, 230.0)])"
proof -
  note defs = write_values_def demo_wv_def writer_partial_def writer_resolved_def writer_ok_def
    UmatiPrWriter_init_def payload_vi_def dict_get_def item_event_def Let_def
  have ok: "\<forall>n v s. fst (demo_wv [] n v s) = None"
    by (simp add: demo_wv_def)
  have h1: "writes_succeed (demo_wv [])
      (writes_of (nodes writer_partial) payload_vi (variable_names writer_partial)) []"
    by (simp add: defs)
  have h2: "writes_succeed (demo_wv [])
      (writes_of (nodes writer_resolved) payload_vi (variable_names writer_resolved)) []"
    by (simp add: defs)
  have r1: "write_values (demo_wv []) writer_partial payload_vi []
       = (False, [ErrNotResolved ''AcVoltagePe'', EvWrite 3 0.150], [(3, 0.150)])"
    using write_values_outcome [where wv = "demo_wv []" and self = writer_partial
        and vals = payload_vi and srv = "[]",
        THEN conjunct2, THEN conjunct2, THEN conjunct1, THEN mp, OF h1]
    by (simp add: defs)
  have r2: "write_values (demo_wv []) writer_resolved payload_vi []
       = (True, [EvWrite 2 230.0, EvWrite 3 0.150], [(2, 230.0), (3, 0.150)])"
    using write_values_outcome [where wv = "demo_wv []" and self = writer_resolved
        and vals = payload_vi and srv = "[]",
        THEN conjunct2, THEN conjunct2, THEN conjunct1, THEN mp, OF h2]
    by (simp add: defs)
  have n: "variable_names writer_resolved = [''AcVoltagePe''] @ ''AcCurrentPe'' # []"
    by (simp add: defs)
  have m: "map_of (nodes writer_resolved) ''AcCurrentPe'' = Some 3"
    by (simp add: defs)
  have h3: "writes_succeed (demo_wv [3])
      (writes_of (nodes writer_resolved) payload_vi [''AcVoltagePe'']) []"
    by (simp add: defs)
  have f: "demo_wv [3] 3 (dict_get payload_vi ''AcCurrentPe'' 0.0)
         (srv_after (demo_wv [3]) (writes_of (nodes writer_resolved) payload_vi [''AcVoltagePe'']) [])
       = (Some (Error ''BadUserAccessDenied''), [(2, 230.0)])"
    by (simp add: defs)
  have r3: "write_values (demo_wv [3]) writer_resolved payload_vi []
       = (False, [EvWrite 2 230.0, EvWrite 3 0.150,
                  ErrWriteException (Error ''BadUserAccessDenied'')], [(2, 230.0)])"
    using write_values_outcome [where wv = "demo_wv [3]" and self = writer_resolved
        and vals = payload_vi and srv = "[]",
        THEN conjunct2, THEN conjunct2, THEN conjunct2, THEN conjunct1, rule_format,
        of "[''AcVoltagePe'']" "''AcCurrentPe''" "[]" 3 "Error ''BadUserAccessDenied''"
          "[(2, 230.0)]"]
      n m h3 f
    by (simp add: defs)
  from ok h1 r1 r2 n m h3 f r3 show ?thesis
    by simp
qed

text \<open>
  C2 as stated fails: when the write of the first of two resolved names raises, the
  second name is never visited.
\<close>

theorem write_values_aborts_batch:
  "variable_names writer_resolved = [''AcVoltagePe'', ''AcCurrentPe'']
   \<and> map_of (nodes writer_resolved) ''AcCurrentPe'' = Some 3
   \<and> write_values (demo_wv [2]) writer_resolved payload_vi []
       = (False, [EvWrite 2 230.0, ErrWriteException (Error ''BadUserAccessDenied'')], [])"
  by (simp add: write_values_def demo_wv_def writer_resolved_def writer_ok_def
      UmatiPrWriter_init_def payload_vi_def dict_get_def)

text \<open>
  C9 (as amended). For a name of the variable-name list that is resolved but absent from
  the values mapping, provided that no write for an earlier name raised, the writer
  issues a write of 0.0 to its node right after the events of the earlier names: the name
  is not skipped, and the missing value is not reported as a failure. When that write
  does not raise, the loop goes on with the flag as the earlier names left it; when that
  write itself raises, the batch ends there with the exception logged and the result
  false, as for any raising write; and when no write of the batch raises, the result is
  true exactly if every name was resolved.
\<close>

theorem write_values_default_zero:
  assumes "variable_names self = pre @ name # post"
    and "map_of (nodes self) name = Some n"
    and "vals name = None"
    and "writes_succeed wv (writes_of (nodes self) vals pre) srv"
  shows "(\<exists>evs1. fst (snd (write_values wv self vals srv))
            = map (item_event (nodes self) vals) pre @ EvWrite n 0.0 # evs1)
    \<and> (\<forall>s1. wv n 0.0 (srv_after wv (writes_of (nodes self) vals pre) srv) = (None, s1) \<longrightarrow>
          write_loop wv (nodes self) vals (pre @ [name]) True srv
            = (Inr (\<forall>x \<in> set pre. map_of (nodes self) x \<noteq> None),
               map (item_event (nodes self) vals) pre @ [EvWrite n 0.0], s1))
    \<and> (\<forall>e s1. wv n 0.0 (srv_after wv (writes_of (nodes self) vals pre) srv) = (Some e, s1) \<longrightarrow>
          write_values wv self vals srv
            = (False, map (item_event (nodes self) vals) pre
                        @ [EvWrite n 0.0, ErrWriteException e], s1))
    \<and> (writes_succeed wv (writes_of (nodes self) vals (variable_names self)) srv \<longrightarrow>
          item_event (nodes self) vals name = EvWrite n 0.0
          \<and> write_values wv self vals srv
              = ((\<forall>x \<in> set (variable_names self). map_of (nodes self) x \<noteq> None),
                 map (item_event (nodes self) vals) (variable_names self),
                 srv_after wv (writes_of (nodes self) vals (variable_names self)) srv))"
  (is "?issued \<and> ?passes \<and> ?raises \<and> ?batch")
proof -
  have d: "dict_get vals name 0.0 = 0.0"
    using assms(3) by (simp add: dict_get_def)
  have it: "item_event (nodes self) vals name = EvWrite n 0.0"
    using assms(2) d by (simp add: item_event_def)
  obtain out s1 where w: "wv n 0.0 (srv_after wv (writes_of (nodes self) vals pre) srv) = (out, s1)"
    by (cases "wv n 0.0 (srv_after wv (writes_of (nodes self) vals pre) srv)")
  have pre: "write_loop wv (nodes self) vals pre True srv
      = (Inr (\<forall>x \<in> set pre. map_of (nodes self) x \<noteq> None),
         map (item_event (nodes self) vals) pre,
         srv_after wv (writes_of (nodes self) vals pre) srv)"
    using write_loop_writes_succeed [OF assms(4), of True] by simp
  obtain r e2 s2 where rest: "write_loop wv (nodes self) vals post
      (\<forall>x \<in> set pre. map_of (nodes self) x \<noteq> None) s1 = (r, e2, s2)"
    by (cases "write_loop wv (nodes self) vals post
      (\<forall>x \<in> set pre. map_of (nodes self) x \<noteq> None) s1")
  have "\<exists>r' evs1 s'. write_loop wv (nodes self) vals (name # post)
      (\<forall>x \<in> set pre. map_of (nodes self) x \<noteq> None)
      (srv_after wv (writes_of (nodes self) vals pre) srv) = (r', EvWrite n 0.0 # evs1, s')"
    using assms(2) d w rest by (cases out) (simp_all add: Let_def)
  then obtain r' evs1 s' where "write_loop wv (nodes self) vals (name # post)
      (\<forall>x \<in> set pre. map_of (nodes self) x \<noteq> None)
      (srv_after wv (writes_of (nodes self) vals pre) srv) = (r', EvWrite n 0.0 # evs1, s')"
    by blast
  then have "write_loop wv (nodes self) vals (variable_names self) True srv
      = (r', map (item_event (nodes self) vals) pre @ EvWrite n 0.0 # evs1, s')"
    using assms(1) pre by (simp add: write_loop_append)
  then have "?issued"
    by (cases r') (simp_all add: write_values_def)
  moreover have "?passes"
    using write_loop_passing_write [OF assms(2) assms(4), of _ True] d by simp
  moreover have "?raises"
    using raising_write_ends_batch [OF assms(1) assms(2) assms(4)] d by simp
  moreover have "?batch"
    using write_values_all_succeed [of wv self vals srv] it by simp
  ultimately show ?thesis
    by (intro conjI)
qed

theorem write_values_default_zero_witness:
  "variable_names writer_resolved = [''AcVoltagePe''] @ ''AcCurrentPe'' # []
   \<and> map_of (nodes writer_resolved) ''AcCurrentPe'' = Some 3
   \<and> payload_v ''AcCurrentPe'' = None
   \<and> writes_succeed (demo_wv []) (writes_of (nodes writer_resolved) payload_v [''AcVoltagePe'']) []
   \<and> writes_succeed (demo_wv [])
         (writes_of (nodes writer_resolved) payload_v (variable_names writer_resolved)) []
   \<and> write_values (demo_wv []) writer_resolved payload_v []
       = (True, [EvWrite 2 230.0, EvWrite 3 0.0], [(2, 230.0), (3, 0.0)])
   \<and> writes_succeed (demo_wv [3]) (writes_of (nodes writer_resolved) payload_v [''AcVoltagePe'']) []
   \<and> demo_wv [3] 3 0.0
         (srv_after (demo_wv [3]) (writes_of (nodes writer_resolved) payload_v [''AcVoltagePe'']) [])
       = (Some (Error ''BadUserAccessDenied''), [(2, 230.0)])
   \<and> write_values (demo_wv [3]) writer_resolved payload_v []
       = (False, [EvWrite 2 230.0, EvWrite 3 0.0,
                  ErrWriteException (Error ''BadUserAccessDenied'')], [(2, 230.0)])"
proof -
  note defs = write_values_def demo_wv_def writer_resolved_def writer_ok_def
    UmatiPrWriter_init_def payload_v_def dict_get_def item_event_def Let_def
  have 1: "variable_names writer_resolved = [''AcVoltagePe''] @ ''AcCurrentPe'' # []"
    by (simp add: defs)
  have 2: "map_of (nodes writer_resolved) ''AcCurrentPe'' = Some 3"
    by (simp add: defs)
  have 3: "payload_v ''AcCurrentPe'' = None"
    by (simp add: defs)
  have 4: "writes_succeed (demo_wv [])
      (writes_of (nodes writer_resolved) payload_v [''AcVoltagePe'']) []"
    by (simp add: defs)
  have 5: "writes_succeed (demo_wv [3])
      (writes_of (nodes writer_resolved) payload_v [''AcVoltagePe'']) []"
    by (simp add: defs)
  have 6: "writes_succeed (demo_wv [])
      (writes_of (nodes writer_resolved) payload_v (variable_names writer_resolved)) []"
    by (simp add: defs)
  have 7: "demo_wv [3] 3 0.0
         (srv_after (demo_wv [3]) (writes_of (nodes writer_resolved) payload_v [''AcVoltagePe'']) [])
       = (Some (Error ''BadUserAccessDenied''), [(2, 230.0)])"
    by (simp add: defs)
  have r1: "write_values (demo_wv []) writer_resolved payload_v []
       = (True, [EvWrite 2 230.0, EvWrite 3 0.0], [(2, 230.0), (3, 0.0)])"
    using write_values_default_zero [OF 1 2 3 4,
        THEN conjunct2, THEN conjunct2, THEN conjunct2, THEN mp, OF 6, THEN conjunct2]
    by (simp add: defs)
  have r2: "write_values (demo_wv [3]) writer_resolved payload_v []
       = (False, [EvWrite 2 230.0, EvWrite 3 0.0,
                  ErrWriteException (Error ''BadUserAccessDenied'')], [(2, 230.0)])"
    using write_values_default_zero [OF 1 2 3 5,
        THEN conjunct2, THEN conjunct2, THEN conjunct1, rule_format, OF 7]
    by (simp add: defs)
  from 1 2 3 4 6 r1 5 7 r2 show ?thesis
    by (intro conjI)
qed

text \<open>
  C9 as stated fails: a resolved name that is absent from the values mapping gets no write
  at all when the write of an earlier name raised.
\<close>

theorem write_values_skips_after_failure:
  "''AcCurrentPe'' \<in> set (variable_names writer_resolved)
   \<and> map_of (nodes writer_resolved) ''AcCurrentPe'' = Some 3
   \<and> payload_v ''AcCurrentPe'' = None
   \<and> EvWrite 3 0.0 \<notin> set (fst (snd (write_values (demo_wv [2]) writer_resolved payload_v [])))"
  by (simp add: write_values_def demo_wv_def writer_resolved_def writer_ok_def
      UmatiPrWriter_init_def payload_v_def dict_get_def)

section \<open>Properties of the controller\<close>

lemma attempt_try_events:
  "filter attempt_or_sleep (fst (attempt_try cfg c)) = [EvConnect]"
  "EvRead r \<notin> set (fst (attempt_try cfg c))"
  by (auto simp: attempt_try_def split: sum.splits prod.splits resolve_result.splits)

lemma connect_loop_no_read:
  "EvRead r \<notin> set (fst (connect_loop cfg connect ks))"
proof (induction ks)
  case Nil
  then show ?case by simp
next
  case (Cons k ks)
  obtain evs out where a: "attempt_try cfg (connect k) = (evs, out)"
    by (cases "attempt_try cfg (connect k)")
  then have e: "EvRead r \<notin> set evs"
    using attempt_try_events(2) [of r cfg "connect k"] by simp
  obtain evs2 res where rest: "connect_loop cfg connect ks = (evs2, res)"
    by (cases "connect_loop cfg connect ks")
  with Cons.IH have "EvRead r \<notin> set evs2" by simp
  with a e rest show ?case
    by (cases out) (simp_all add: Let_def)
qed

lemma connect_loop_all_fail:
  assumes "a \<le> retries cfg"
    and "\<forall>k. a \<le> k \<and> k \<le> retries cfg \<longrightarrow> (\<exists>e. snd (attempt_try cfg (connect k)) = Inl e)"
  shows "snd (connect_loop cfg connect [a..retries cfg]) = GaveUp
    \<and> filter attempt_or_sleep (fst (connect_loop cfg connect [a..retries cfg]))
        = concat (map (\<lambda>k. if k < retries cfg then [EvConnect, EvSleep (retry_delay cfg)]
                            else [EvConnect]) [a..retries cfg])
    \<and> (\<forall>k. a \<le> k \<and> k \<le> retries cfg \<longrightarrow>
          (\<exists>m. WarnAttempt k (retries cfg) m \<in> set (fst (connect_loop cfg connect [a..retries cfg]))))"
  using assms
proof (induction "nat (retries cfg - a)" arbitrary: a)
  case 0
  then have a: "a = retries cfg" by simp
  then have up: "[a..retries cfg] = [a]" by simp
  from 0 a obtain e where "snd (attempt_try cfg (connect a)) = Inl e"
    by blast
  then obtain evs where at: "attempt_try cfg (connect a) = (evs, Inl e)"
    by (cases "attempt_try cfg (connect a)") simp
  have f: "filter attempt_or_sleep evs = [EvConnect]"
    using attempt_try_events(1) [of cfg "connect a"] at by simp
  have cl: "connect_loop cfg connect [a] = (evs @ [WarnAttempt a (retries cfg) (message e), EvDisconnect], GaveUp)"
    using at a by (simp add: Let_def)
  show ?case
    unfolding up cl using f a by auto
next
  case (Suc n)
  then have lt: "a < retries cfg" by simp
  then have up: "[a..retries cfg] = a # [a + 1..retries cfg]"
    by (simp add: upto_rec1)
  from Suc.prems lt obtain e where "snd (attempt_try cfg (connect a)) = Inl e"
    by (metis order_refl less_imp_le)
  then obtain evs where at: "attempt_try cfg (connect a) = (evs, Inl e)"
    by (cases "attempt_try cfg (connect a)") simp
  have f: "filter attempt_or_sleep evs = [EvConnect]"
    using attempt_try_events(1) [of cfg "connect a"] at by simp
  obtain evs2 res where rest: "connect_loop cfg connect [a + 1..retries cfg] = (evs2, res)"
    by (cases "connect_loop cfg connect [a + 1..retries cfg]")
  have n: "n = nat (retries cfg - (a + 1))" and le: "a + 1 \<le> retries cfg"
    using Suc.hyps(2) lt by simp_all
  have fails: "\<forall>k. a + 1 \<le> k \<and> k \<le> retries cfg \<longrightarrow> (\<exists>e. snd (attempt_try cfg (connect k)) = Inl e)"
    using Suc.prems(2) by auto
  from Suc.hyps(1) [OF n le fails] rest
  have ih: "res = GaveUp"
    "filter attempt_or_sleep evs2
        = concat (map (\<lambda>k. if k < retries cfg then [EvConnect, EvSleep (retry_delay cfg)]
                            else [EvConnect]) [a + 1..retries cfg])"
    "\<forall>k. a + 1 \<le> k \<and> k \<le> retries cfg \<longrightarrow> (\<exists>m. WarnAttempt k (retries cfg) m \<in> set evs2)"
    by simp_all
  have cl: "connect_loop cfg connect (a # [a + 1..retries cfg])
      = (evs @ [WarnAttempt a (retries cfg) (message e), EvDisconnect]
           @ EvSleep (retry_delay cfg) # evs2, res)"
    using at lt rest by (simp add: Let_def)
  have w: "\<forall>k. a \<le> k \<and> k \<le> retries cfg \<longrightarrow>
      (\<exists>m. WarnAttempt k (retries cfg) m
         \<in> set (evs @ [WarnAttempt a (retries cfg) (message e), EvDisconnect]
                   @ EvSleep (retry_delay cfg) # evs2))"
  proof (intro allI impI)
    fix k assume k: "a \<le> k \<and> k \<le> retries cfg"
    show "\<exists>m. WarnAttempt k (retries cfg) m
         \<in> set (evs @ [WarnAttempt a (retries cfg) (message e), EvDisconnect]
                   @ EvSleep (retry_delay cfg) # evs2)"
    proof (cases "k = a")
      case True
      then show ?thesis by auto
    next
      case False
      with k have "a + 1 \<le> k \<and> k \<le> retries cfg" by simp
      with ih(3) obtain m where "WarnAttempt k (retries cfg) m \<in> set evs2" by blast
      then show ?thesis by auto
    qed
  qed
  show ?case
    unfolding up cl using f ih(1) ih(2) lt w by simp
qed

lemma count_connects:
  "length (filter ((=) EvConnect)
     (concat (map (\<lambda>k. if k < N then [EvConnect, EvSleep d] else [EvConnect]) ks))) = length ks"
  by (induction ks) auto

lemma filter_connect:
  "filter ((=) EvConnect) (filter attempt_or_sleep xs) = filter ((=) EvConnect) xs"
  by (induction xs) auto

lemma main_gave_up:
  assumes "snd (connect_loop cfg connect [1..retries cfg]) = GaveUp"
  shows "main (Inr cfg) connect wv srv cycles
    = (fst (connect_loop cfg connect [1..retries cfg]), Returned)"
proof -
  obtain evs where "connect_loop cfg connect [1..retries cfg] = (evs, GaveUp)"
    using assms by (cases "connect_loop cfg connect [1..retries cfg]") simp
  then show ?thesis
    by (simp add: main_def)
qed

text \<open>
  C4. With an attempt ceiling N of at least 1 and every attempt failing (at the connect
  or at the resolution), the controller connects exactly N times, sleeps for the
  configured delay after every attempt but the last, returns from the retry loop by
  giving up, and \<^verbatim>\<open>main\<close> returns without a single sensor read: the sampling loop is
  never entered.
\<close>

theorem retry_exactly_n_attempts:
  assumes "1 \<le> retries cfg"
    and "\<forall>k \<in> {1..retries cfg}. \<exists>e. snd (attempt_try cfg (connect k)) = Inl e"
  shows "filter attempt_or_sleep (fst (main (Inr cfg) connect wv srv cycles))
        = concat (map (\<lambda>k. if k < retries cfg then [EvConnect, EvSleep (retry_delay cfg)]
                            else [EvConnect]) [1..retries cfg])
    \<and> length (filter ((=) EvConnect) (fst (main (Inr cfg) connect wv srv cycles)))
        = nat (retries cfg)
    \<and> snd (connect_loop cfg connect [1..retries cfg]) = GaveUp
    \<and> (\<forall>r. EvRead r \<notin> set (fst (main (Inr cfg) connect wv srv cycles)))
    \<and> snd (main (Inr cfg) connect wv srv cycles) = Returned"
proof -
  have fails: "\<forall>k. 1 \<le> k \<and> k \<le> retries cfg \<longrightarrow> (\<exists>e. snd (attempt_try cfg (connect k)) = Inl e)"
    using assms(2) by simp
  from connect_loop_all_fail [OF assms(1) fails]
  have g: "snd (connect_loop cfg connect [1..retries cfg]) = GaveUp"
    and f: "filter attempt_or_sleep (fst (connect_loop cfg connect [1..retries cfg]))
        = concat (map (\<lambda>k. if k < retries cfg then [EvConnect, EvSleep (retry_delay cfg)]
                            else [EvConnect]) [1..retries cfg])"
    by simp_all
  have m: "main (Inr cfg) connect wv srv cycles
    = (fst (connect_loop cfg connect [1..retries cfg]), Returned)"
    using g by (rule main_gave_up)
  have "length (filter ((=) EvConnect) (fst (connect_loop cfg connect [1..retries cfg])))
      = length [1..retries cfg]"
    using count_connects [of "retries cfg" "retry_delay cfg" "[1..retries cfg]"] f
      filter_connect [of "fst (connect_loop cfg connect [1..retries cfg])"]
    by simp
  then have c: "length (filter ((=) EvConnect) (fst (connect_loop cfg connect [1..retries cfg])))
      = nat (retries cfg)"
    by simp
  show ?thesis
    unfolding m using f c g connect_loop_no_read [of _ cfg connect "[1..retries cfg]"] by simp
qed

theorem retry_exactly_n_attempts_witness:
  "1 \<le> retries demo_config
   \<and> (\<forall>k. snd (attempt_try demo_config (refuse k)) = Inl (Error ''Connection refused''))
   \<and> main (Inr demo_config) refuse (demo_wv []) [] []
       = ([EvConnect, WarnAttempt 1 3 ''Connection refused'', EvDisconnect, EvSleep 3.0,
           EvConnect, WarnAttempt 2 3 ''Connection refused'', EvDisconnect, EvSleep 3.0,
           EvConnect, WarnAttempt 3 3 ''Connection refused'', EvDisconnect], Returned)
   \<and> 1 \<le> retries demo_config_bad_path
   \<and> (\<forall>k. snd (attempt_try demo_config_bad_path (accept k))
          = Inl (Error ''Node resolution failed.''))
   \<and> main (Inr demo_config_bad_path) accept (demo_wv []) [] []
       = ([EvConnect, ErrBrowseFailed ''Monitoring'', WarnAttempt 1 2 ''Node resolution failed.'',
           EvDisconnect, EvSleep 3.0,
           EvConnect, ErrBrowseFailed ''Monitoring'', WarnAttempt 2 2 ''Node resolution failed.'',
           EvDisconnect], Returned)"
proof -
  have 1: "1 \<le> retries demo_config"
    by (simp add: demo_config_def)
  have a: "attempt_try demo_config (refuse k) = ([EvConnect], Inl (Error ''Connection refused''))" for k
    by (simp add: attempt_try_def refuse_def)
  then have 2: "\<forall>k \<in> {1..retries demo_config}. \<exists>e. snd (attempt_try demo_config (refuse k)) = Inl e"
    by simp
  have up: "[1..3::int] = [1, 2, 3]"
    by (simp add: upto_rec1)
  have r: "retries demo_config = 3" "retry_delay demo_config = 3"
    by (simp_all add: demo_config_def)
  have m: "main (Inr demo_config) refuse (demo_wv []) [] []
       = ([EvConnect, WarnAttempt 1 3 ''Connection refused'', EvDisconnect, EvSleep 3.0,
           EvConnect, WarnAttempt 2 3 ''Connection refused'', EvDisconnect, EvSleep 3.0,
           EvConnect, WarnAttempt 3 3 ''Connection refused'', EvDisconnect], Returned)"
    unfolding main_def by (simp add: up a r Let_def)
  have p1: "1 \<le> retries demo_config_bad_path"
    by (simp add: demo_config_bad_path_def)
  have pa: "attempt_try demo_config_bad_path (accept k)
      = ([EvConnect, ErrBrowseFailed ''Monitoring''], Inl (Error ''Node resolution failed.''))" for k
    by (simp add: attempt_try_def accept_def demo_config_bad_path_def demo_config_def
        resolve_nodes_def find_child_by_browse_name_def demo_space_def UmatiPrWriter_init_def)
  then have p2: "\<forall>k \<in> {1..retries demo_config_bad_path}.
      \<exists>e. snd (attempt_try demo_config_bad_path (accept k)) = Inl e"
    by simp
  have pup: "[1..2::int] = [1, 2]"
    by (simp add: upto_rec1)
  have pr: "retries demo_config_bad_path = 2" "retry_delay demo_config_bad_path = 3"
    by (simp_all add: demo_config_bad_path_def demo_config_def)
  have pm: "main (Inr demo_config_bad_path) accept (demo_wv []) [] []
       = ([EvConnect, ErrBrowseFailed ''Monitoring'', WarnAttempt 1 2 ''Node resolution failed.'',
           EvDisconnect, EvSleep 3.0,
           EvConnect, ErrBrowseFailed ''Monitoring'', WarnAttempt 2 2 ''Node resolution failed.'',
           EvDisconnect], Returned)"
    unfolding main_def by (simp add: pup pa pr Let_def)
  from 1 a m p1 pa pm
    retry_exactly_n_attempts [OF 1 2, of "demo_wv []" "[]" "[]"]
    retry_exactly_n_attempts [OF p1 p2, of "demo_wv []" "[]" "[]"]
  show ?thesis
    by simp
qed

text \<open>
  C5 (as amended). When every attempt fails and the ceiling is exhausted, a warning has
  been logged for each attempt and \<^verbatim>\<open>main\<close> returns normally: the exit status of
  the process is 0.
\<close>

theorem retry_exhausted_returns:
  assumes "1 \<le> retries cfg"
    and "\<forall>k \<in> {1..retries cfg}. \<exists>e. snd (attempt_try cfg (connect k)) = Inl e"
  shows "exit_status (snd (main (Inr cfg) connect wv srv cycles)) = 0
    \<and> (\<forall>k \<in> {1..retries cfg}.
          \<exists>m. WarnAttempt k (retries cfg) m \<in> set (fst (main (Inr cfg) connect wv srv cycles)))"
proof -
  have fails: "\<forall>k. 1 \<le> k \<and> k \<le> retries cfg \<longrightarrow> (\<exists>e. snd (attempt_try cfg (connect k)) = Inl e)"
    using assms(2) by simp
  from connect_loop_all_fail [OF assms(1) fails]
  have g: "snd (connect_loop cfg connect [1..retries cfg]) = GaveUp"
    and w: "\<forall>k. 1 \<le> k \<and> k \<le> retries cfg \<longrightarrow>
          (\<exists>m. WarnAttempt k (retries cfg) m \<in> set (fst (connect_loop cfg connect [1..retries cfg])))"
    by simp_all
  have m: "main (Inr cfg) connect wv srv cycles
    = (fst (connect_loop cfg connect [1..retries cfg]), Returned)"
    using g by (rule main_gave_up)
  show ?thesis
    unfolding m using w by (simp add: exit_status_def)
qed

theorem retry_exhausted_returns_witness:
  "1 \<le> retries demo_config
   \<and> (\<forall>k. snd (attempt_try demo_config (refuse k)) = Inl (Error ''Connection refused''))
   \<and> exit_status (snd (main (Inr demo_config) refuse (demo_wv []) [] [])) = 0
   \<and> (\<exists>m. WarnAttempt 3 (retries demo_config) m
          \<in> set (fst (main (Inr demo_config) refuse (demo_wv []) [] [])))"
proof -
  have 1: "1 \<le> retries demo_config"
    by (simp add: demo_config_def)
  have a: "attempt_try demo_config (refuse k) = ([EvConnect], Inl (Error ''Connection refused''))" for k
    by (simp add: attempt_try_def refuse_def)
  then have 2: "\<forall>k \<in> {1..retries demo_config}. \<exists>e. snd (attempt_try demo_config (refuse k)) = Inl e"
    by simp
  have 3: "(3::int) \<in> {1..retries demo_config}"
    by (simp add: demo_config_def)
  from retry_exhausted_returns [OF 1 2, of "demo_wv []" "[]" "[]"] 1 a 3 show ?thesis
    by auto
qed

text \<open>
  C5 as stated fails: with three attempts that are all refused, the retry loop gives up
  and the exit status is 0, not a non-zero status.
\<close>

theorem retry_exhausted_exits_zero:
  "snd (connect_loop demo_config refuse [1..retries demo_config]) = GaveUp
   \<and> exit_status (snd (main (Inr demo_config) refuse (demo_wv []) [] [])) = 0"
proof -
  have a: "attempt_try demo_config (refuse k) = ([EvConnect], Inl (Error ''Connection refused''))" for k
    by (simp add: attempt_try_def refuse_def)
  have up: "[1..retries demo_config] = [1, 2, 3]"
    by (simp add: demo_config_def upto_rec1)
  have r: "retries demo_config = 3"
    by (simp add: demo_config_def)
  have g: "snd (connect_loop demo_config refuse [1..retries demo_config]) = GaveUp"
    unfolding up by (simp add: a r Let_def)
  then show ?thesis
    by (simp add: main_gave_up exit_status_def)
qed

lemma sampling_no_writer:
  "EvConnect \<notin> set (sampling cfg wv None pzem srv tick cycles)
   \<and> (\<forall>n v. EvWrite n v \<notin> set (sampling cfg wv None pzem srv tick cycles))
   \<and> length (filter sensor_read (sampling cfg wv None pzem srv tick cycles)) = length cycles"
proof (induction cycles arbitrary: pzem tick)
  case Nil
  then show ?case by simp
next
  case (Cons env cycles)
  obtain r pzem' where rd: "read pzem env = (r, pzem')"
    by (cases "read pzem env")
  from Cons.IH [of pzem' "tick + 1"] rd show ?case
    by (simp add: Let_def)
qed

text \<open>
  C10. With a retry count of 0 or less the retry loop makes no attempt and leaves the
  writer unset; \<^verbatim>\<open>main\<close> goes straight to the sampling loop, where every cycle
  reads the sensor once and nothing is ever written to the server, and it does not end
  with a failure.
\<close>

theorem zero_retries_skips_connection:
  assumes "retries cfg \<le> 0"
  shows "connect_loop cfg connect [1..retries cfg] = ([], Proceed None)
    \<and> fst (main (Inr cfg) connect wv srv cycles)
        = sampling cfg wv None
            (PzemNative_init (cfg_device cfg) (cfg_baudrate cfg) (cfg_timeout cfg)
               (cfg_read_delay cfg) (cfg_simulate cfg)) srv 0 cycles @ [EvDisconnect]
    \<and> EvConnect \<notin> set (fst (main (Inr cfg) connect wv srv cycles))
    \<and> (\<forall>n v. EvWrite n v \<notin> set (fst (main (Inr cfg) connect wv srv cycles)))
    \<and> length (filter sensor_read (fst (main (Inr cfg) connect wv srv cycles))) = length cycles
    \<and> snd (main (Inr cfg) connect wv srv cycles) = Returned"
proof -
  have up: "[1..retries cfg] = []"
    using assms by simp
  have m: "main (Inr cfg) connect wv srv cycles
      = (sampling cfg wv None
            (PzemNative_init (cfg_device cfg) (cfg_baudrate cfg) (cfg_timeout cfg)
               (cfg_read_delay cfg) (cfg_simulate cfg)) srv 0 cycles @ [EvDisconnect], Returned)"
    by (simp add: main_def up)
  show ?thesis
    unfolding m up
    using sampling_no_writer [of cfg wv "PzemNative_init (cfg_device cfg) (cfg_baudrate cfg)
        (cfg_timeout cfg) (cfg_read_delay cfg) (cfg_simulate cfg)" srv 0 cycles]
    by simp
qed

theorem zero_retries_skips_connection_witness:
  "retries (demo_config\<lparr>retries := 0\<rparr>) \<le> 0
   \<and> main (Inr (demo_config\<lparr>retries := 0\<rparr>)) refuse (demo_wv []) []
        [\<lparr>now = 0, port = quiet_port\<rparr>]
      = ([EvRead \<lparr>voltage = 229.5, current = 0.16, power_w = 36.72, energy = 0.051,
                  status = ''SIM''\<rparr>, EvSleep 5.0, EvDisconnect], Returned)"
proof -
  have 1: "retries (demo_config\<lparr>retries := 0\<rparr>) \<le> 0"
    by simp
  have "main (Inr (demo_config\<lparr>retries := 0\<rparr>)) refuse (demo_wv []) []
        [\<lparr>now = 0, port = quiet_port\<rparr>]
      = ([EvRead \<lparr>voltage = 229.5, current = 0.16, power_w = 36.72, energy = 0.051,
                  status = ''SIM''\<rparr>, EvSleep 5.0, EvDisconnect], Returned)"
    by (simp add: main_def demo_config_def PzemNative_init_def read_def read_simulate_def
        Let_def py_int_def)
  with 1 zero_retries_skips_connection [OF 1, of refuse "demo_wv []" "[]" "[\<lparr>now = 0, port = quiet_port\<rparr>]"]
  show ?thesis by simp
qed

end
